theory Spec2Isabelle
  imports Complex_Main "HOL-Library.Product_Lexorder"
begin

section \<open>Cross field by heat diffusion: data model\<close>

text \<open>
  The embedding follows \<^verbatim>\<open>contrib/QuadMeshingTools/qmt_cross_field.cpp\<close>.
  The headers \<^verbatim>\<open>qmt_types.hpp\<close> and \<^verbatim>\<open>qmt_utils.hpp\<close> are not part of the
  sources at hand, so the types and helpers they declare are either parameters of
  the definitions below or modelled from the specification, and marked as such.

  Conventions.
  \<^item> Modelled from the spec: the index types. \<^verbatim>\<open>id\<close> (vertex, edge and occurrence
    indices) is \<open>nat\<close>, \<^verbatim>\<open>sid\<close> (the signed slot value of the adjacency table) is
    \<open>int\<close>; index arithmetic is taken without wrap-around, i.e. meshes are smaller
    than the range of the index type.
  \<^item> The sentinel \<^verbatim>\<open>NO_ID\<close> is a parameter \<open>no_id\<close>.
  \<^item> \<^verbatim>\<open>double\<close> is idealised as \<open>real\<close>: the properties below are statements
    in exact arithmetic.
  \<^item> A division by zero gives the source an infinite or undefined floating-point value,
    with which it goes on, and no real number stands for such a value. At the two
    divisions of \<^verbatim>\<open>stiffness_coefficient\<close> by a quantity that the source has not
    tested (lines 304 and 310), the embedding stops with the value \<open>DivisionByZero\<close>
    when that quantity is zero. This value is not a return of the source: the
    properties below state nothing about what the source computes after such a
    division.
  \<^item> A \<^verbatim>\<open>std::array\<close> of two ids is a pair, of three ids a triple, the three
    adjacency slots of a triangle a list of length three.
  \<^item> Logging has no effect on control flow; the message of an \<^verbatim>\<open>error(...)\<close>
    call that precedes a \<^verbatim>\<open>return false\<close> is kept as the constructor of the
    error value.
\<close>

type_synonym id_t = nat
type_synonym sid = int
type_synonym id2 = "id_t \<times> id_t"
type_synonym id3 = "id_t \<times> id_t \<times> id_t"
type_synonym sid3 = "sid list"
type_synonym vec3 = "real \<times> real \<times> real"

record TMesh =
  points :: "vec3 list"
  lines :: "id2 list"
  triangles :: "id3 list"

record IJV =
  ijv_ij :: id2
  ijv_val :: real

record IV =
  iv_i :: id_t
  iv_val :: real

datatype stiff_error =
    OccurrenceCount
  | EdgeTooSmall
  | FrameTooSmall
  | NeighborTooSmall
  | ShouldNotHappen
  | DivisionByZero

datatype cf_error =
    AdjacencyFailed
  | NoInternalEdges
  | StiffnessFailed nat stiff_error
  | PrepareFailed
  | SolverFailed nat

definition EPS :: real where
  "EPS = 1 / 10 ^ 14"

definition DBL_MAX :: real where
  "DBL_MAX = (2 - 1 / 2 ^ 52) * 2 ^ 1023"

subsection \<open>Helpers of the missing headers\<close>

text \<open>
  Modelled from the spec: the 3D vector algebra of \<^verbatim>\<open>qmt_utils.hpp\<close>
  (``cross/dot/length/normalize''), on real triples.
\<close>

fun vsub :: "vec3 \<Rightarrow> vec3 \<Rightarrow> vec3" where
  "vsub (a1, a2, a3) (b1, b2, b3) = (a1 - b1, a2 - b2, a3 - b3)"

fun vscale :: "real \<Rightarrow> vec3 \<Rightarrow> vec3" where
  "vscale c (a1, a2, a3) = (c * a1, c * a2, c * a3)"

fun dot :: "vec3 \<Rightarrow> vec3 \<Rightarrow> real" where
  "dot (a1, a2, a3) (b1, b2, b3) = a1 * b1 + a2 * b2 + a3 * b3"

fun cross :: "vec3 \<Rightarrow> vec3 \<Rightarrow> vec3" where
  "cross (a1, a2, a3) (b1, b2, b3) =
     (a2 * b3 - a3 * b2, a3 * b1 - a1 * b3, a1 * b2 - a2 * b1)"

definition vlength :: "vec3 \<Rightarrow> real" where
  "vlength a = sqrt (dot a a)"

definition normalize :: "vec3 \<Rightarrow> vec3" where
  "normalize a = vscale (1 / vlength a) a"

text \<open>
  Modelled from the spec: \<^verbatim>\<open>angle_nvectors\<close>, ``the unsigned angle between the
  neighbor edge and the central edge'', for unit vectors: the arc cosine of their dot
  product, clamped to \<open>[-1, 1]\<close>.
\<close>

definition angle_nvectors :: "vec3 \<Rightarrow> vec3 \<Rightarrow> real" where
  "angle_nvectors a b = arccos (min 1 (max (dot a b) (- 1)))"

text \<open>
  The C library's \<^verbatim>\<open>atan2\<close> on reals: the angle of the point \<open>(x, y)\<close>, in
  \<open>(-\<pi>, \<pi>]\<close>, and \<open>0\<close> at the origin.
\<close>

definition atan2 :: "real \<Rightarrow> real \<Rightarrow> real" where
  "atan2 y x =
     (if 0 < x then arctan (y / x)
      else if x < 0 then (if 0 \<le> y then arctan (y / x) + pi else arctan (y / x) - pi)
      else if 0 < y then pi / 2
      else if y < 0 then - (pi / 2)
      else 0)"

section \<open>Adjacency builder\<close>

text \<open>
  Modelled from the spec: \<^verbatim>\<open>sort_unique_with_perm\<close> of \<^verbatim>\<open>qmt_utils.hpp\<close>,
  ``sort-and-deduplicate to obtain unique edges'', ``keeping the old2new mapping'': the
  unique entries in ascending (lexicographic) order, and for every input position the
  index of its entry among the unique ones. The number of unique entries, which the
  source function returns, is the length of the first component.
\<close>

fun index_of :: "'a list \<Rightarrow> 'a \<Rightarrow> nat" where
  "index_of [] y = 0"
| "index_of (x # xs) y = (if x = y then 0 else Suc (index_of xs y))"

definition sort_unique_with_perm :: "id2 list \<Rightarrow> id2 list \<times> id_t list" where
  "sort_unique_with_perm faces =
     (let uniques = remdups_adj (sort faces)
      in (uniques, map (index_of uniques) faces))"

text \<open>Lines 97--105: the three edges of every triangle, each as a sorted pair.\<close>

abbreviation (input) NBF :: nat where
  "NBF \<equiv> 3"

fun tri_at :: "id3 \<Rightarrow> nat \<Rightarrow> id_t" where
  "tri_at (a, b, c) lf = (if lf = 0 then a else if lf = 1 then b else c)"

definition sort_face :: "id2 \<Rightarrow> id2" where
  "sort_face f = (if snd f < fst f then (snd f, fst f) else f)"

definition collect_faces :: "id3 list \<Rightarrow> id2 list" where
  "collect_faces tris =
     concat (map (\<lambda>t. map (\<lambda>lf. sort_face (tri_at t lf, tri_at t ((lf + 1) mod NBF)))
                         [0..<NBF]) tris)"

text \<open>
  Lines 110--117: the occurrences of every unique edge. The table is an in-out
  parameter of the source function, which resizes it without clearing it.
\<close>

definition resize_rows :: "nat \<Rightarrow> 'a list list \<Rightarrow> 'a list list" where
  "resize_rows n tbl = take n tbl @ replicate (n - length tbl) []"

definition push_occurrence :: "id_t list \<Rightarrow> id_t list list \<Rightarrow> id_t \<Rightarrow> id_t list list" where
  "push_occurrence old2IEdge tbl facePos =
     tbl[old2IEdge ! facePos := tbl ! (old2IEdge ! facePos) @ [facePos]]"

definition build_uIEdgeToOld ::
  "nat \<Rightarrow> id_t list \<Rightarrow> nat \<Rightarrow> id_t list list \<Rightarrow> id_t list list" where
  "build_uIEdgeToOld ntri old2IEdge nbUniques tbl0 =
     foldl (\<lambda>tbl i. foldl (\<lambda>tbl lf. push_occurrence old2IEdge tbl (NBF * i + lf))
                       tbl [0..<NBF])
       (resize_rows nbUniques tbl0) [0..<ntri]"

text \<open>
  Lines 119--152: the loop over the unique edges. The state is the adjacency table
  and the non-manifold neighbor list; \<open>None\<close> is \<^verbatim>\<open>return false\<close>.
\<close>

type_synonym adj_state = "sid3 list \<times> id_t list list"

definition set_slot :: "sid3 list \<Rightarrow> nat \<Rightarrow> nat \<Rightarrow> sid \<Rightarrow> sid3 list" where
  "set_slot tn e lf v = tn[e := (tn ! e)[lf := v]]"

definition nm_occurrence :: "id_t list \<Rightarrow> adj_state \<Rightarrow> id_t \<Rightarrow> adj_state" where
  "nm_occurrence occ s oj =
     (case s of (tn, nm) \<Rightarrow>
        let e = oj div NBF;
            lf = oj mod NBF;
            neighs = filter (\<lambda>ok. ok \<noteq> oj) occ;
            pos = length nm
        in (set_slot tn e lf (- (int pos + 1)), nm @ [neighs]))"

definition adj_edge :: "id_t \<Rightarrow> id2 \<Rightarrow> id_t list \<Rightarrow> adj_state \<Rightarrow> adj_state option" where
  "adj_edge no_id edge occ s =
     (case s of (tn, nm) \<Rightarrow>
        if edge = (no_id, no_id) then Some s
        else if fst edge = no_id then None
        else if snd edge = no_id then None
        else if length occ = 1 then
          Some (set_slot tn (occ ! 0 div NBF) (occ ! 0 mod NBF) (int no_id), nm)
        else if length occ = 2 then
          (let e1 = occ ! 0 div NBF; lf1 = occ ! 0 mod NBF;
               e2 = occ ! 1 div NBF; lf2 = occ ! 1 mod NBF
           in Some (set_slot (set_slot tn e1 lf1 (int (NBF * e2 + lf2)))
                      e2 lf2 (int (NBF * e1 + lf1)), nm))
        else if length occ > 2 then Some (foldl (nm_occurrence occ) s occ)
        else Some s)"

fun adj_loop ::
  "id_t \<Rightarrow> id2 list \<Rightarrow> id_t list list \<Rightarrow> nat list \<Rightarrow> adj_state \<Rightarrow> adj_state option" where
  "adj_loop no_id uIEdges uIEdgeToOld [] s = Some s"
| "adj_loop no_id uIEdges uIEdgeToOld (e # es) s =
     (case adj_edge no_id (uIEdges ! e) (uIEdgeToOld ! e) s of
        None \<Rightarrow> None
      | Some s' \<Rightarrow> adj_loop no_id uIEdges uIEdgeToOld es s')"

text \<open>
  \<^verbatim>\<open>compute_triangle_adjacencies\<close>. The result lists the output parameters
  \<^verbatim>\<open>triangle_neighbors\<close>, \<^verbatim>\<open>nm_triangle_neighbors\<close>, \<^verbatim>\<open>uIEdges\<close>,
  \<^verbatim>\<open>old2IEdge\<close> and \<^verbatim>\<open>uIEdgeToOld\<close>; the third argument is the content of
  \<^verbatim>\<open>uIEdgeToOld\<close> at the call.
\<close>

definition compute_triangle_adjacencies ::
  "id_t \<Rightarrow> id3 list \<Rightarrow> id_t list list \<Rightarrow>
   (sid3 list \<times> id_t list list \<times> id2 list \<times> id_t list \<times> id_t list list) option" where
  "compute_triangle_adjacencies no_id tris uIEdgeToOld0 =
     (let tn0 = replicate (length tris) [int no_id, int no_id, int no_id];
          faces = collect_faces tris;
          (uIEdges, old2IEdge) = sort_unique_with_perm faces;
          nbUniques = length uIEdges;
          uIEdgeToOld = build_uIEdgeToOld (length tris) old2IEdge nbUniques uIEdgeToOld0
      in case adj_loop no_id uIEdges uIEdgeToOld [0..<nbUniques] (tn0, []) of
           None \<Rightarrow> None
         | Some (tn, nm) \<Rightarrow> Some (tn, nm, uIEdges, old2IEdge, uIEdgeToOld))"

section \<open>Local frames and stiffness coefficients\<close>

definition triangle_area :: "TMesh \<Rightarrow> id_t \<Rightarrow> real" where
  "triangle_area M t =
     (let N = cross (vsub (points M ! tri_at (triangles M ! t) 2)
                          (points M ! tri_at (triangles M ! t) 0))
                    (vsub (points M ! tri_at (triangles M ! t) 1)
                          (points M ! tri_at (triangles M ! t) 0))
      in vlength N / 2)"

definition triangle_normal :: "TMesh \<Rightarrow> id_t \<Rightarrow> vec3" where
  "triangle_normal M t =
     (let N = cross (vsub (points M ! tri_at (triangles M ! t) 2)
                          (points M ! tri_at (triangles M ! t) 0))
                    (vsub (points M ! tri_at (triangles M ! t) 1)
                          (points M ! tri_at (triangles M ! t) 0))
      in if vlength N < EPS then (DBL_MAX, DBL_MAX, DBL_MAX) else normalize N)"

text \<open>
  Lines 290--303: the unsigned angle between a neighbor edge and the central edge,
  by the endpoint they share.
\<close>

definition shared_endpoint_angle ::
  "id2 \<Rightarrow> id_t \<Rightarrow> id_t \<Rightarrow> vec3 \<Rightarrow> vec3 \<Rightarrow> stiff_error + real" where
  "shared_endpoint_angle aedge v1 v2 edg e_x =
     (if fst aedge = v1 then Inr (angle_nvectors edg e_x)
      else if snd aedge = v1 then Inr (angle_nvectors edg (vscale (- 1) e_x))
      else if fst aedge = v2 then Inr (angle_nvectors (vscale (- 1) edg) e_x)
      else if snd aedge = v2 then Inr (angle_nvectors (vscale (- 1) edg) (vscale (- 1) e_x))
      else Inl ShouldNotHappen)"

text \<open>
  Line 304, \<^verbatim>\<open>-2. / tan(agl)\<close>, the raw Crouzeix--Raviart weight of an angle, which
  \<^const>\<open>angle_nvectors\<close> gives in \<open>[0, \<pi>]\<close>. Where \<open>sin agl = 0\<close> (the two edges are
  collinear, the angle is \<open>0\<close> or \<open>\<pi>\<close>) the tangent is zero and the quotient is no real
  number: \<open>None\<close>. The source gets an infinite weight at the angle \<open>0\<close> and, \<open>\<pi>\<close> being
  a rounded value in it, a weight of about \<open>1.6e16\<close> at the angle \<open>\<pi>\<close>. Where
  \<open>cos agl = 0\<close> (a right angle) the tangent is infinite and the quotient is \<open>0\<close>; the
  source gets a weight of about \<open>-1.2e-16\<close> there.
\<close>

definition CR_raw_weight :: "real \<Rightarrow> real option" where
  "CR_raw_weight agl =
     (if sin agl = 0 then None
      else if cos agl = 0 then Some 0
      else Some (- 2 / tan agl))"

text \<open>
  Lines 269--306, the body of the loop over the two other edges of triangle \<open>t\<close>. The
  state holds the arrays \<^verbatim>\<open>bvars\<close>, \<^verbatim>\<open>alpha\<close> and \<^verbatim>\<open>CR_weight\<close>.
\<close>

type_synonym stiff_state = "id_t list \<times> real list \<times> real list"

definition neighbor_edge ::
  "TMesh \<Rightarrow> id2 list \<Rightarrow> id_t list \<Rightarrow> id_t \<Rightarrow> id_t \<Rightarrow> vec3 \<Rightarrow> vec3 \<Rightarrow>
   nat \<Rightarrow> nat \<Rightarrow> nat \<Rightarrow> nat \<Rightarrow> stiff_state \<Rightarrow> stiff_error + stiff_state" where
  "neighbor_edge M uIEdges old2IEdge v1 v2 e_x e_y t le s k st =
     (case st of (bvars, alpha, CR_weight) \<Rightarrow>
        let aoe = 3 * t + (le + 1 + k) mod 3;
            ae = old2IEdge ! aoe;
            aedge = uIEdges ! ae;
            bvars' = bvars[2 * s + k := ae];
            edg0 = vsub (points M ! snd aedge) (points M ! fst aedge);
            len = vlength edg0
        in if len < EPS then Inl NeighborTooSmall
           else
             let edg = vscale (1 / len) edg0;
                 cx = dot edg e_x;
                 cy = dot edg e_y;
                 a = atan2 cy cx;
                 alpha' = alpha[2 * s + k := (if a < 0 then a + 2 * pi else a)]
             in case shared_endpoint_angle aedge v1 v2 edg e_x of
                  Inl err \<Rightarrow> Inl err
                | Inr agl \<Rightarrow>
                    (case CR_raw_weight agl of
                       None \<Rightarrow> Inl DivisionByZero
                     | Some wgt \<Rightarrow> Inr (bvars', alpha', CR_weight[2 * s + k := wgt])))"

text \<open>
  Lines 254--307, the body of the loop over the two incident triangles. \<open>prevN\<close> is
  read in the second round only.
\<close>

definition incident_triangle ::
  "TMesh \<Rightarrow> id_t \<Rightarrow> id2 list \<Rightarrow> id_t list \<Rightarrow> id_t list list \<Rightarrow> id_t \<Rightarrow> id_t \<Rightarrow> vec3 \<Rightarrow>
   nat \<Rightarrow> vec3 \<times> stiff_state \<Rightarrow> stiff_error + (vec3 \<times> stiff_state)" where
  "incident_triangle M e uIEdges old2IEdge uIEdgeToOld v1 v2 e_x s pst =
     (case pst of (prevN, st) \<Rightarrow>
        let oe = uIEdgeToOld ! e ! s;
            t = oe div 3;
            le = oe mod 3;
            N0 = triangle_normal M t;
            N = (if s = 1 \<and> dot prevN N0 < 0 then vscale (- 1) N0 else N0);
            e_y0 = cross N e_x
        in if vlength e_y0 < EPS then Inl FrameTooSmall
           else
             let e_y = normalize e_y0
             in case neighbor_edge M uIEdges old2IEdge v1 v2 e_x e_y t le s 0 st of
                  Inl err \<Rightarrow> Inl err
                | Inr st1 \<Rightarrow>
                    (case neighbor_edge M uIEdges old2IEdge v1 v2 e_x e_y t le s 1 st1 of
                       Inl err \<Rightarrow> Inl err
                     | Inr st2 \<Rightarrow> Inr (N, st2)))"

text \<open>
  \<^verbatim>\<open>stiffness_coefficient\<close>, lines 234--307: the checks on the edge and the loop over
  its two incident triangles, up to the arrays \<^verbatim>\<open>bvars\<close>, \<^verbatim>\<open>alpha\<close> and
  \<^verbatim>\<open>CR_weight\<close>. \<open>Inl\<close> carries the reason of a \<^verbatim>\<open>return false\<close>, or
  \<open>DivisionByZero\<close> for a raw weight that is no real number.
\<close>

definition stiffness_neighbors ::
  "id_t \<Rightarrow> TMesh \<Rightarrow> id_t \<Rightarrow> id2 list \<Rightarrow> id_t list \<Rightarrow> id_t list list \<Rightarrow>
   stiff_error + stiff_state" where
  "stiffness_neighbors no_id M e uIEdges old2IEdge uIEdgeToOld =
     (if length (uIEdgeToOld ! e) \<noteq> 2 then Inl OccurrenceCount
      else
        let v1 = fst (uIEdges ! e);
            v2 = snd (uIEdges ! e);
            e_x0 = vsub (points M ! v2) (points M ! v1);
            lenr = vlength e_x0
        in if lenr < EPS then Inl EdgeTooSmall
           else
             let e_x = vscale (1 / lenr) e_x0;
                 st0 = (replicate 4 no_id, replicate 4 0, replicate 4 (- 1 / 4))
             in case incident_triangle M e uIEdges old2IEdge uIEdgeToOld v1 v2 e_x 0
                       ((0, 0, 0), st0) of
                  Inl err \<Rightarrow> Inl err
                | Inr pst1 \<Rightarrow>
                    (case incident_triangle M e uIEdges old2IEdge uIEdgeToOld v1 v2 e_x 1
                            pst1 of
                       Inl err \<Rightarrow> Inl err
                     | Inr (prevN, st) \<Rightarrow> Inr st))"

text \<open>
  Lines 308--310: the four weights divided by their negated total; \<open>None\<close> where the
  total is zero and the source divides by zero.
\<close>

definition normalize_CR :: "real list \<Rightarrow> real list option" where
  "normalize_CR CR_weight =
     (let isum = - 1 * (CR_weight ! 0 + CR_weight ! 1 + CR_weight ! 2 + CR_weight ! 3)
      in if isum = 0 then None
         else Some (foldl (\<lambda>w k. w[k := w ! k / isum]) CR_weight [0..<4]))"

text \<open>Lines 312--325: the diagonal seeds and the four 2x2 coupling blocks.\<close>

definition emit_coefficients ::
  "id_t \<Rightarrow> id_t list \<Rightarrow> real list \<Rightarrow> real list \<Rightarrow> IV list \<times> IJV list" where
  "emit_coefficients e bvars alpha CR_weight =
     (let x_i = 2 * e;
          y_i = 2 * e + 1
      in ([\<lparr>iv_i = x_i, iv_val = 1\<rparr>, \<lparr>iv_i = y_i, iv_val = 1\<rparr>],
          concat (map (\<lambda>j.
              let x_j = 2 * (bvars ! j);
                  y_j = 2 * (bvars ! j) + 1
              in [\<lparr>ijv_ij = (x_i, x_j), ijv_val = CR_weight ! j * cos (4 * alpha ! j)\<rparr>,
                  \<lparr>ijv_ij = (x_i, y_j), ijv_val = CR_weight ! j * - 1 * sin (4 * alpha ! j)\<rparr>,
                  \<lparr>ijv_ij = (y_i, x_j), ijv_val = CR_weight ! j * sin (4 * alpha ! j)\<rparr>,
                  \<lparr>ijv_ij = (y_i, y_j), ijv_val = CR_weight ! j * cos (4 * alpha ! j)\<rparr>])
            [0..<4])))"

text \<open>
  \<^verbatim>\<open>stiffness_coefficient\<close>: the first part above, then the normalisation of the
  weights and the coefficients. The source returns true whenever the first part has
  not returned false; \<open>DivisionByZero\<close> marks the runs in which it does so with
  weights that are no numbers.
\<close>

definition stiffness_coefficient ::
  "id_t \<Rightarrow> TMesh \<Rightarrow> id_t \<Rightarrow> id2 list \<Rightarrow> id_t list \<Rightarrow> id_t list list \<Rightarrow>
   stiff_error + (IV list \<times> IJV list)" where
  "stiffness_coefficient no_id M e uIEdges old2IEdge uIEdgeToOld =
     (case stiffness_neighbors no_id M e uIEdges old2IEdge uIEdgeToOld of
        Inl err \<Rightarrow> Inl err
      | Inr (bvars, alpha, CR_weight) \<Rightarrow>
          (case normalize_CR CR_weight of
             None \<Rightarrow> Inl DivisionByZero
           | Some CR_weight' \<Rightarrow> Inr (emit_coefficients e bvars alpha CR_weight')))"

section \<open>System compactor\<close>

text \<open>
  \<^verbatim>\<open>prepare_system\<close>. The entries are sorted by \<open>(row, column)\<close>; runs of equal
  \<open>(row, column)\<close> are summed and flushed into the row when the sum exceeds \<open>EPS\<close>
  in absolute value. The source reads \<^verbatim>\<open>coefs[0]\<close> unconditionally, which is
  undefined for an empty list: \<open>None\<close> here.
\<close>

type_synonym rows = "nat list list \<times> real list list"

definition flush :: "rows \<Rightarrow> nat \<Rightarrow> nat \<Rightarrow> real \<Rightarrow> rows" where
  "flush cv cur_i cur_j acc_val =
     (case cv of (columns, values) \<Rightarrow>
        if \<bar>acc_val\<bar> > EPS
        then (columns[cur_i := columns ! cur_i @ [cur_j]],
              values[cur_i := values ! cur_i @ [acc_val]])
        else cv)"

definition merge_step :: "nat \<times> nat \<times> real \<times> rows \<Rightarrow> IJV \<Rightarrow> nat \<times> nat \<times> real \<times> rows" where
  "merge_step st c =
     (case st of (cur_i, cur_j, acc_val, cv) \<Rightarrow>
        let i = fst (ijv_ij c);
            j = snd (ijv_ij c);
            v = ijv_val c
        in if i \<noteq> cur_i then (i, j, v, flush cv cur_i cur_j acc_val)
           else if j \<noteq> cur_j then (i, j, v, flush cv cur_i cur_j acc_val)
           else (cur_i, cur_j, acc_val + v, cv))"

definition prepare_system ::
  "IV list \<Rightarrow> IJV list \<Rightarrow> nat list list \<Rightarrow> real list list \<Rightarrow> rows option" where
  "prepare_system K_diag K_coefs columns values =
     (let coefs = sort_key ijv_ij
            (K_coefs @ map (\<lambda>d. \<lparr>ijv_ij = (iv_i d, iv_i d), ijv_val = iv_val d\<rparr>) K_diag)
      in case coefs of
           [] \<Rightarrow> None
         | c0 # rest \<Rightarrow>
             (case foldl merge_step
                     (fst (ijv_ij c0), snd (ijv_ij c0), ijv_val c0, (columns, values)) rest of
                (cur_i, cur_j, acc_val, cv) \<Rightarrow> Some (flush cv cur_i cur_j acc_val)))"

section \<open>Boundary conditions and assembly\<close>

text \<open>\<^verbatim>\<open>sorted\<close> of the source (line 66).\<close>

definition sorted_id2 :: "id_t \<Rightarrow> id_t \<Rightarrow> id2" where
  "sorted_id2 v1 v2 = (if v1 < v2 then (v1, v2) else (v2, v1))"

text \<open>\<^verbatim>\<open>std::find\<close>: the position of the first element equal to \<open>y\<close>.\<close>

fun find_pos :: "'a list \<Rightarrow> 'a \<Rightarrow> nat option" where
  "find_pos [] y = None"
| "find_pos (x # xs) y = (if x = y then Some 0 else map_option Suc (find_pos xs y))"

text \<open>
  Lines 469--483: the Dirichlet marks. The counter \<^verbatim>\<open>nbc\<close> is only logged.
\<close>

definition mark_dirichlet :: "TMesh \<Rightarrow> id2 list \<Rightarrow> id_t list list \<Rightarrow> bool list" where
  "mark_dirichlet M uIEdges uIEdgeToOld =
     (let d0 = replicate (length uIEdges) False;
          d1 = foldl (\<lambda>d e. if length (uIEdgeToOld ! e) \<noteq> 2 then d[e := True] else d)
                 d0 [0..<length uIEdges]
      in foldl (\<lambda>d l.
                  let edge = sorted_id2 (fst (lines M ! l)) (snd (lines M ! l))
                  in case find_pos uIEdges edge of
                       None \<Rightarrow> d
                     | Some e \<Rightarrow> d[e := True])
           d1 [0..<length (lines M)])"

text \<open>
  Lines 486--517: the assembly loop. The state is \<^verbatim>\<open>K_diag\<close>, \<^verbatim>\<open>K_coefs\<close>,
  \<^verbatim>\<open>rhs\<close> and \<^verbatim>\<open>Mass\<close>.
\<close>

type_synonym asm_state = "IV list \<times> IJV list \<times> real list \<times> real list"

definition assemble_edge ::
  "id_t \<Rightarrow> TMesh \<Rightarrow> id2 list \<Rightarrow> id_t list \<Rightarrow> id_t list list \<Rightarrow> bool list \<Rightarrow>
   nat \<Rightarrow> asm_state \<Rightarrow> cf_error + asm_state" where
  "assemble_edge no_id M uIEdges old2IEdge uIEdgeToOld dirichletEdge e st =
     (case st of (K_diag, K_coefs, rhs, Mass) \<Rightarrow>
        if \<not> dirichletEdge ! e then
          (case stiffness_coefficient no_id M e uIEdges old2IEdge uIEdgeToOld of
             Inl err \<Rightarrow> Inl (StiffnessFailed e err)
           | Inr (iv, ijv) \<Rightarrow>
               let area1 = triangle_area M (uIEdgeToOld ! e ! 0 div 3);
                   area2 = triangle_area M (uIEdgeToOld ! e ! 1 div 3)
               in Inr (K_diag @ iv, K_coefs @ ijv, rhs,
                       Mass[2 * e + 0 := 1 / 3 * (area1 + area2),
                            2 * e + 1 := 1 / 3 * (area1 + area2)]))
        else
          Inr (K_diag @ [\<lparr>iv_i = 2 * e + 0, iv_val = 1\<rparr>, \<lparr>iv_i = 2 * e + 1, iv_val = 1\<rparr>],
               K_coefs, rhs[2 * e + 0 := 1, 2 * e + 1 := 0], Mass))"

fun assemble_loop ::
  "id_t \<Rightarrow> TMesh \<Rightarrow> id2 list \<Rightarrow> id_t list \<Rightarrow> id_t list list \<Rightarrow> bool list \<Rightarrow>
   nat list \<Rightarrow> asm_state \<Rightarrow> cf_error + asm_state" where
  "assemble_loop no_id M uIEdges old2IEdge uIEdgeToOld dirichletEdge [] st = Inr st"
| "assemble_loop no_id M uIEdges old2IEdge uIEdgeToOld dirichletEdge (e # es) st =
     (case assemble_edge no_id M uIEdges old2IEdge uIEdgeToOld dirichletEdge e st of
        Inl err \<Rightarrow> Inl err
      | Inr st' \<Rightarrow> assemble_loop no_id M uIEdges old2IEdge uIEdgeToOld dirichletEdge es st')"

definition assemble ::
  "id_t \<Rightarrow> TMesh \<Rightarrow> id2 list \<Rightarrow> id_t list \<Rightarrow> id_t list list \<Rightarrow> bool list \<Rightarrow>
   cf_error + asm_state" where
  "assemble no_id M uIEdges old2IEdge uIEdgeToOld dirichletEdge =
     assemble_loop no_id M uIEdges old2IEdge uIEdgeToOld dirichletEdge [0..<length uIEdges]
       ([], [], replicate (2 * length uIEdges) 0, replicate (2 * length uIEdges) 1)"

text \<open>Lines 519--528: the average, the minimum and the maximum of the edge lengths.\<close>

definition edge_sizes :: "TMesh \<Rightarrow> id2 list \<Rightarrow> real \<times> real \<times> real" where
  "edge_sizes M uIEdges =
     (case foldl (\<lambda>acc e. case acc of (eavg, emin, emax) \<Rightarrow>
                    let len = vlength (vsub (points M ! snd (uIEdges ! e))
                                            (points M ! fst (uIEdges ! e)))
                    in (eavg + len, min len emin, max len emax))
             (0, DBL_MAX, - DBL_MAX) [0..<length uIEdges] of
        (eavg, emin, emax) \<Rightarrow> (eavg / real (length uIEdges), emin, emax))"

section \<open>Diffusion driver\<close>

text \<open>
  The external solver \<^verbatim>\<open>solve_sparse_linear_system\<close> is a parameter: from the rows
  of column indices, the rows of values and the right-hand side it returns a solution,
  or \<open>None\<close> when it fails.
\<close>

type_synonym solver = "nat list list \<Rightarrow> real list list \<Rightarrow> real list \<Rightarrow> real list option"

text \<open>
  Line 559. \<^verbatim>\<open>iter\<close> is a \<^verbatim>\<open>size_t\<close> and \<^verbatim>\<open>nbIter\<close> an \<^verbatim>\<open>int\<close>, so
  \<^verbatim>\<open>iter/(nbIter-1)\<close> is a division of unsigned integers, whose quotient is then
  converted to \<^verbatim>\<open>double\<close>. \<open>nbIter\<close> is 10 at this point, so the conversion of
  \<open>nbIter - 1\<close> to \<^verbatim>\<open>size_t\<close> is exact.
\<close>

definition heat_dt :: "real \<Rightarrow> real \<Rightarrow> int \<Rightarrow> nat \<Rightarrow> real" where
  "heat_dt dtInitial dtFinal nbIter iter =
     dtInitial + (dtFinal - dtInitial) * real (iter div nat (nbIter - 1))"

text \<open>Lines 560--575: the values of the operator of this iteration.\<close>

definition heat_operator ::
  "bool list \<Rightarrow> nat list list \<Rightarrow> real list list \<Rightarrow> real list \<Rightarrow> real \<Rightarrow> real list list" where
  "heat_operator dirichletEdge K_columns K_values Mass dt =
     foldl (\<lambda>Aval i.
              if \<not> dirichletEdge ! (i div 2) then
                Aval[i := foldl (\<lambda>row j.
                                   if K_columns ! i ! j = i
                                   then row[j := 1 + dt / Mass ! i * K_values ! i ! j]
                                   else row[j := dt / Mass ! i * K_values ! i ! j])
                            (Aval ! i) [0..<length (K_columns ! i)]]
              else Aval[i := [1]])
       K_values [0..<length K_values]"

text \<open>Lines 588--595: the projection of the non-Dirichlet pairs to unit length.\<close>

definition renormalize :: "bool list \<Rightarrow> nat \<Rightarrow> real list \<Rightarrow> real list" where
  "renormalize dirichletEdge n x =
     foldl (\<lambda>x e.
              let nrm = sqrt (x ! (2 * e) * x ! (2 * e) + x ! (2 * e + 1) * x ! (2 * e + 1))
              in if \<not> dirichletEdge ! e \<and> nrm > EPS
                 then (x[2 * e + 0 := x ! (2 * e + 0) / nrm])
                        [2 * e + 1 := x ! (2 * e + 1) / nrm]
                 else x)
       x [0..<n]"

definition heat_iteration ::
  "solver \<Rightarrow> bool list \<Rightarrow> nat list list \<Rightarrow> real list list \<Rightarrow> real list \<Rightarrow> nat \<Rightarrow>
   real \<Rightarrow> real \<Rightarrow> int \<Rightarrow> nat \<Rightarrow> real list \<Rightarrow> real list option" where
  "heat_iteration solve dirichletEdge K_columns K_values Mass n dtInitial dtFinal nbIter
       iter x =
     (let dt = heat_dt dtInitial dtFinal nbIter iter;
          Aval = heat_operator dirichletEdge K_columns K_values Mass dt;
          B = x
      in case solve K_columns Aval B of
           None \<Rightarrow> None
         | Some x' \<Rightarrow> Some (renormalize dirichletEdge n x'))"

text \<open>
  The loop over the iterations. Besides the final vector (\<open>None\<close> when the solver
  failed) the function returns the vector at the end of every completed iteration,
  in order.
\<close>

fun heat_loop ::
  "(nat \<Rightarrow> real list \<Rightarrow> real list option) \<Rightarrow> nat list \<Rightarrow> real list \<Rightarrow>
   real list list \<times> real list option" where
  "heat_loop step [] x = ([], Some x)"
| "heat_loop step (iter # iters) x =
     (case step iter x of
        None \<Rightarrow> ([], None)
      | Some x' \<Rightarrow> (case heat_loop step iters x' of (tr, r) \<Rightarrow> (x' # tr, r)))"

text \<open>Lines 553--597. The caller's \<open>nbIter\<close> is overwritten before the loop.\<close>

definition diffusion ::
  "solver \<Rightarrow> bool list \<Rightarrow> nat list list \<Rightarrow> real list list \<Rightarrow> real list \<Rightarrow> nat \<Rightarrow>
   real \<Rightarrow> real \<Rightarrow> int \<Rightarrow> real list \<Rightarrow> real list list \<times> real list option" where
  "diffusion solve dirichletEdge K_columns K_values Mass n emin emax nbIter0 rhs =
     (let dtFinal = emin * emin;
          dtInitial = emax * emax;
          x = rhs;
          nbIter = (10 :: int)
      in heat_loop
           (heat_iteration solve dirichletEdge K_columns K_values Mass n dtInitial dtFinal
              nbIter)
           [0..<nat nbIter] x)"

section \<open>Field extraction\<close>

text \<open>
  Lines 606--610: the angle of edge \<open>e\<close> from its pair of unknowns
  \<open>(x[2e], x[2e+1])\<close>, and the loop that stores it under the vertex pair of the edge.
\<close>

definition edge_angle :: "real list \<Rightarrow> nat \<Rightarrow> real" where
  "edge_angle x e =
     (let len = sqrt (x ! (2 * e) * x ! (2 * e) + x ! (2 * e + 1) * x ! (2 * e + 1))
      in if len > EPS then 1 / 4 * atan2 (x ! (2 * e + 1) / len) (x ! (2 * e) / len)
         else 0)"

definition fill_edge_to_angle ::
  "id2 list \<Rightarrow> real list \<Rightarrow> (id2 \<rightharpoonup> real) \<Rightarrow> (id2 \<rightharpoonup> real)" where
  "fill_edge_to_angle uIEdges x m =
     foldl (\<lambda>m e. m((fst (uIEdges ! e), snd (uIEdges ! e)) \<mapsto> edge_angle x e))
       m [0..<length uIEdges]"

section \<open>The cross field computation\<close>

text \<open>
  \<^verbatim>\<open>compute_cross_field_with_heat\<close>. The mesh is the one
  \<^verbatim>\<open>import_TMesh_from_gmsh\<close> has read, which never fails; the views built for
  display do not influence the result and are left out. The last argument is the
  content of the caller's map, \<open>None\<close> for a null pointer; the result is its
  content at the return, or the reason of the failure. The value
  \<open>StiffnessFailed e DivisionByZero\<close> is the exception: it is no failure of the source,
  but marks a run in which the weights of edge \<open>e\<close> are no numbers.
\<close>

definition compute_cross_field_with_heat ::
  "solver \<Rightarrow> id_t \<Rightarrow> TMesh \<Rightarrow> int \<Rightarrow> (id2 \<rightharpoonup> real) option \<Rightarrow>
   cf_error + (id2 \<rightharpoonup> real) option" where
  "compute_cross_field_with_heat solve no_id M nbIter edge_to_angle =
     (case compute_triangle_adjacencies no_id (triangles M) [] of
        None \<Rightarrow> Inl AdjacencyFailed
      | Some (tn, nm, uIEdges, old2IEdge, uIEdgeToOld) \<Rightarrow>
          if length uIEdges = 0 then Inl NoInternalEdges
          else
            let dirichletEdge = mark_dirichlet M uIEdges uIEdgeToOld
            in case assemble no_id M uIEdges old2IEdge uIEdgeToOld dirichletEdge of
                 Inl err \<Rightarrow> Inl err
               | Inr (K_diag, K_coefs, rhs, Mass) \<Rightarrow>
                   (case edge_sizes M uIEdges of (eavg, emin, emax) \<Rightarrow>
                      (case prepare_system K_diag K_coefs
                              (replicate (2 * length uIEdges) [])
                              (replicate (2 * length uIEdges) []) of
                         None \<Rightarrow> Inl PrepareFailed
                       | Some (K_columns, K_values) \<Rightarrow>
                           (case diffusion solve dirichletEdge K_columns K_values Mass
                                   (length uIEdges) emin emax nbIter rhs of
                              (tr, None) \<Rightarrow> Inl (SolverFailed (length tr))
                            | (tr, Some x) \<Rightarrow>
                                Inr (map_option (fill_edge_to_angle uIEdges x)
                                       edge_to_angle)))))"

text \<open>
  A solver for the systems whose operator is the identity, used to run the
  computation on concrete meshes: it returns the right-hand side when every row is
  the isolated unit diagonal, and fails otherwise.
\<close>

definition unit_diagonal_solver :: solver where
  "unit_diagonal_solver Acol Aval B =
     (if list_all (\<lambda>r. Acol ! r = [r] \<and> Aval ! r = [1]) [0..<length B]
      then Some B else None)"


definition constant_solver :: "real list \<Rightarrow> solver" where
  "constant_solver v Acol Aval B = Some v"

text \<open>
  A unique edge with the sentinel in exactly one of its two components: the edges at
  which lines 123--124 return false.
\<close>

definition half_sentinel :: "id_t \<Rightarrow> id2 \<Rightarrow> bool" where
  "half_sentinel no_id edge \<longleftrightarrow>
     edge \<noteq> (no_id, no_id) \<and> (fst edge = no_id \<or> snd edge = no_id)"

text \<open>A mesh of one triangle and no line element, to run the computation on.\<close>

definition single_triangle :: TMesh where
  "single_triangle = \<lparr>points = [(0, 0, 0), (1, 0, 0), (0, 1, 0)], lines = [],
     triangles = [(0, 1, 2)]\<rparr>"

text \<open>
  The contract assumed of the external solver where a property depends on it: a
  vector it returns has the dimension of the right-hand side and satisfies every row
  of the system exactly. A row is given by its column indices and its values.
\<close>

definition row_sum :: "nat list \<Rightarrow> real list \<Rightarrow> real list \<Rightarrow> real" where
  "row_sum cols vals x = sum_list (map (\<lambda>(c, v). v * x ! c) (zip cols vals))"

definition exact_solver :: "solver \<Rightarrow> bool" where
  "exact_solver solve \<longleftrightarrow>
     (\<forall>Acol Aval B x. solve Acol Aval B = Some x \<longrightarrow>
        length x = length B \<and> (\<forall>r<length B. row_sum (Acol ! r) (Aval ! r) x = B ! r))"

text \<open>The pair of unknowns of edge \<open>e\<close> has the Dirichlet value \<open>(1, 0)\<close>.\<close>

definition pinned :: "real list \<Rightarrow> nat \<Rightarrow> bool" where
  "pinned x e \<longleftrightarrow> x ! (2 * e) = 1 \<and> x ! (2 * e + 1) = 0"

text \<open>
  The adjacency slot of occurrence \<open>k\<close> (local edge \<open>k mod 3\<close> of triangle
  \<open>k div 3\<close>), and the shape of an adjacency table for \<open>T\<close> triangles.
\<close>

definition slot_at :: "sid3 list \<Rightarrow> nat \<Rightarrow> sid" where
  "slot_at tn k = tn ! (k div NBF) ! (k mod NBF)"

definition slots_for :: "nat \<Rightarrow> sid3 list \<Rightarrow> bool" where
  "slots_for T tn \<longleftrightarrow> length tn = T \<and> list_all (\<lambda>t. length t = NBF) tn"

text \<open>
  A mesh of two triangles with sides 13, 14 and 15 on either side of the edge between
  the vertices 0 and 1.
\<close>

definition two_triangles :: TMesh where
  "two_triangles = \<lparr>points = [(0, 0, 0), (14, 0, 0), (5, 12, 0), (5, - 12, 0)], lines = [],
     triangles = [(0, 1, 2), (0, 1, 3)]\<rparr>"

section \<open>Properties\<close>

subsection \<open>Timestep\<close>

text \<open>
  Claim C1 (the code does not do this). The claim states that the timestep of
  iteration \<open>iter\<close> is \<open>emax\<^sup>2 + (emin\<^sup>2 - emax\<^sup>2) * iter / (nbIter - 1)\<close> with real
  division. The quotient in the source is a quotient of integers: for a longest edge of
  length 2 and a shortest edge of length 1 the timestep of the second iteration
  (\<open>iter = 1\<close>) is still \<open>4\<close>, where the claimed formula gives \<open>11/3\<close>.
\<close>

theorem heat_dt_second_iteration:
  "heat_dt (2 * 2) (1 * 1) 10 1 = 4 \<and>
   2 * 2 + (1 * 1 - 2 * 2) * (1 / (10 - 1)) = (11 / 3 :: real)"
  by (simp add: heat_dt_def)

subsection \<open>Weights\<close>

lemma normalize_CR_four:
  assumes "w0 + w1 + w2 + w3 \<noteq> 0"
  shows "normalize_CR [w0, w1, w2, w3] =
     Some [w0 / - (w0 + w1 + w2 + w3), w1 / - (w0 + w1 + w2 + w3),
           w2 / - (w0 + w1 + w2 + w3), w3 / - (w0 + w1 + w2 + w3)]"
proof -
  have "[0..<4] = [0, 1, 2, 3 :: nat]"
    by (simp add: upt_rec)
  with assms show ?thesis
    by (simp add: normalize_CR_def Let_def)
qed

lemma normalize_CR_zero:
  assumes "w0 + w1 + w2 + w3 = 0"
  shows "normalize_CR [w0, w1, w2, w3] = None"
  using assms by (simp add: normalize_CR_def Let_def)

lemma neg_quot: "s \<noteq> 0 \<Longrightarrow> s / - s = (- 1 :: real)"
  by simp

lemma neighbor_edge_weight:
  assumes "neighbor_edge M uIEdges old2IEdge v1 v2 e_x e_y t le s k (bv, al, w) = Inr (bv', al', w')"
  shows "\<exists>agl a. CR_raw_weight agl = Some a \<and> w' = w[2 * s + k := a]"
  using assms
  by (auto simp: neighbor_edge_def Let_def split: if_splits sum.splits option.splits)

lemma incident_triangle_weights:
  assumes "incident_triangle M e uIEdges old2IEdge uIEdgeToOld v1 v2 e_x s (pN, bv, al, w)
      = Inr (pN', bv', al', w')"
  shows "\<exists>g0 g1 a0 a1. CR_raw_weight g0 = Some a0 \<and> CR_raw_weight g1 = Some a1 \<and>
     w' = w[2 * s := a0, 2 * s + 1 := a1]"
  using assms
  by (auto simp: incident_triangle_def Let_def split: if_splits sum.splits
      dest!: neighbor_edge_weight) blast+

lemma replicate_four_updated:
  "(replicate 4 c)[0 := a0, Suc 0 := a1, 2 := a2, 3 := a3] = [a0, a1, a2, a3]"
  by (simp add: numeral_eq_Suc)

lemma stiffness_neighbors_weights:
  assumes "stiffness_neighbors no_id M e uIEdges old2IEdge uIEdgeToOld = Inr (bvars, alpha, w)"
  shows "\<exists>g0 g1 g2 g3 a0 a1 a2 a3.
     CR_raw_weight g0 = Some a0 \<and> CR_raw_weight g1 = Some a1 \<and>
     CR_raw_weight g2 = Some a2 \<and> CR_raw_weight g3 = Some a3 \<and> w = [a0, a1, a2, a3]"
proof -
  from assms show ?thesis
    by (auto simp: stiffness_neighbors_def Let_def replicate_four_updated
        split: if_splits sum.splits dest!: incident_triangle_weights)
qed

lemma normalized_four_sum:
  assumes "w0 + w1 + w2 + w3 \<noteq> 0"
  shows "sum_list [w0 / - (w0 + w1 + w2 + w3), w1 / - (w0 + w1 + w2 + w3),
                   w2 / - (w0 + w1 + w2 + w3), w3 / - (w0 + w1 + w2 + w3)] = (- 1 :: real)"
proof -
  have "w0 / - (w0 + w1 + w2 + w3) + w1 / - (w0 + w1 + w2 + w3) +
        w2 / - (w0 + w1 + w2 + w3) + w3 / - (w0 + w1 + w2 + w3)
        = (w0 + w1 + w2 + w3) / - (w0 + w1 + w2 + w3)"
    by (simp add: add_divide_distrib)
  also have "\<dots> = - 1"
    using assms neg_quot [of "w0 + w1 + w2 + w3"] by blast
  finally show ?thesis by (simp add: add.assoc)
qed

text \<open>
  Claim C8. When the first part of \<^const>\<open>stiffness_coefficient\<close> (lines 234--307)
  succeeds for an edge, its array of weights holds four raw weights, each the value
  \<^const>\<open>CR_raw_weight\<close> of an angle, so that no tangent in them is zero. If their total
  is not zero, the function succeeds, and the four weights of the coefficients it
  returns are the raw weights divided by the negated total and sum to \<open>- 1\<close>. If their
  total is zero, the division of line 310 is a division by zero.
\<close>

theorem normalized_weights_sum:
  assumes "stiffness_neighbors no_id M e uIEdges old2IEdge uIEdgeToOld = Inr (bvars, alpha, w)"
  shows "(\<exists>g0 g1 g2 g3. map CR_raw_weight [g0, g1, g2, g3] = map Some w) \<and>
         (if w ! 0 + w ! 1 + w ! 2 + w ! 3 = 0
          then stiffness_coefficient no_id M e uIEdges old2IEdge uIEdgeToOld = Inl DivisionByZero
          else \<exists>w'. normalize_CR w = Some w' \<and>
                 w' = map (\<lambda>a. a / - (w ! 0 + w ! 1 + w ! 2 + w ! 3)) w \<and>
                 sum_list w' = - 1 \<and>
                 stiffness_coefficient no_id M e uIEdges old2IEdge uIEdgeToOld =
                   Inr (emit_coefficients e bvars alpha w'))"
proof -
  from stiffness_neighbors_weights [OF assms] obtain g0 g1 g2 g3 a0 a1 a2 a3 where
    g: "CR_raw_weight g0 = Some a0" "CR_raw_weight g1 = Some a1"
       "CR_raw_weight g2 = Some a2" "CR_raw_weight g3 = Some a3"
    and w: "w = [a0, a1, a2, a3]"
    by blast
  from g w have raw: "\<exists>g0 g1 g2 g3. map CR_raw_weight [g0, g1, g2, g3] = map Some w"
    by (intro exI [of _ g0] exI [of _ g1] exI [of _ g2] exI [of _ g3]) simp
  have tot: "w ! 0 + w ! 1 + w ! 2 + w ! 3 = a0 + a1 + a2 + a3"
    by (simp add: w)
  show ?thesis
  proof (cases "a0 + a1 + a2 + a3 = 0")
    case True
    from normalize_CR_zero [OF True] assms
    have "stiffness_coefficient no_id M e uIEdges old2IEdge uIEdgeToOld = Inl DivisionByZero"
      by (simp add: stiffness_coefficient_def w)
    with raw True tot show ?thesis by simp
  next
    case False
    let ?w' = "[a0 / - (a0 + a1 + a2 + a3), a1 / - (a0 + a1 + a2 + a3),
                a2 / - (a0 + a1 + a2 + a3), a3 / - (a0 + a1 + a2 + a3)]"
    have n: "normalize_CR w = Some ?w'"
      unfolding w by (rule normalize_CR_four [OF False])
    have m: "?w' = map (\<lambda>a. a / - (w ! 0 + w ! 1 + w ! 2 + w ! 3)) w"
      by (simp add: w)
    have s: "sum_list ?w' = - 1"
      by (rule normalized_four_sum [OF False])
    from assms n
    have c: "stiffness_coefficient no_id M e uIEdges old2IEdge uIEdgeToOld =
        Inr (emit_coefficients e bvars alpha ?w')"
      by (simp add: stiffness_coefficient_def)
    from False tot have "w ! 0 + w ! 1 + w ! 2 + w ! 3 \<noteq> 0" by simp
    with raw n m s c show ?thesis by simp
  qed
qed

text \<open>
  The edge between the vertices 0 and 1 of the mesh \<^const>\<open>two_triangles\<close>: its
  neighbor edges meet it at angles of tangent \<open>4/3\<close> and \<open>12/5\<close>, which gives the raw
  weights \<open>-3/2\<close> and \<open>-5/6\<close> on either side.
\<close>

lemma two_triangles_adjacencies:
  "compute_triangle_adjacencies 4294967295 (triangles two_triangles) [] =
     Some ([[3, 4294967295, 4294967295], [0, 4294967295, 4294967295]], [],
           [(0, 1), (0, 2), (0, 3), (1, 2), (1, 3)],
           [0, 3, 1, 0, 4, 2], [[0, 3], [2], [5], [1], [4]])"
  by (simp add: two_triangles_def compute_triangle_adjacencies_def
      sort_unique_with_perm_def collect_faces_def
      sort_face_def build_uIEdgeToOld_def resize_rows_def push_occurrence_def adj_edge_def
      set_slot_def upt_rec)

lemma sqrt_squares:
  "sqrt 196 = 14" "sqrt 169 = 13" "sqrt 225 = 15" "sqrt 28224 = 168" "sqrt 144 = 12"
  "sqrt 16 = 4" "sqrt 25 = 5"
  by (rule real_sqrt_unique; simp)+

lemma sqrt_fractions: "sqrt (1 - (3 / 5)\<^sup>2) = 4 / 5" "sqrt (1 - (5 / 13)\<^sup>2) = 12 / 13"
  by (rule real_sqrt_unique; simp add: power2_eq_square)+

lemma tan_arccos_pos:
  assumes "0 < x" and "x \<le> 1"
  shows "tan (arccos x) = sqrt (1 - x\<^sup>2) / x"
  using assms by (simp add: tan_def sin_arccos)

lemma two_triangles_neighbors:
  "\<exists>bvars alpha. stiffness_neighbors 4294967295 two_triangles 0
      [(0, 1), (0, 2), (0, 3), (1, 2), (1, 3)] [0, 3, 1, 0, 4, 2] [[0, 3], [2], [5], [1], [4]]
    = Inr (bvars, alpha, [- (3 / 2), - (5 / 6), - (3 / 2), - (5 / 6)])"
  apply (simp add: stiffness_neighbors_def incident_triangle_def neighbor_edge_def
      shared_endpoint_angle_def triangle_normal_def two_triangles_def vlength_def normalize_def
      angle_nvectors_def CR_raw_weight_def tan_arccos_pos sin_arccos
      sqrt_squares sqrt_fractions replicate_four_updated EPS_def Let_def)
  apply (simp add: power2_eq_square)
  done

theorem normalized_weights_sum_witness:
  "\<exists>bvars alpha.
     stiffness_neighbors 4294967295 two_triangles 0
       [(0, 1), (0, 2), (0, 3), (1, 2), (1, 3)] [0, 3, 1, 0, 4, 2] [[0, 3], [2], [5], [1], [4]]
       = Inr (bvars, alpha, [- (3 / 2), - (5 / 6), - (3 / 2), - (5 / 6)]) \<and>
     normalize_CR [- (3 / 2), - (5 / 6), - (3 / 2), - (5 / 6)]
       = Some [- (9 / 28), - (5 / 28), - (9 / 28), - (5 / 28)] \<and>
     sum_list [- (9 / 28), - (5 / 28), - (9 / 28), - (5 / 28 :: real)] = - 1 \<and>
     stiffness_coefficient 4294967295 two_triangles 0
       [(0, 1), (0, 2), (0, 3), (1, 2), (1, 3)] [0, 3, 1, 0, 4, 2] [[0, 3], [2], [5], [1], [4]]
       = Inr (emit_coefficients 0 bvars alpha
                [- (9 / 28), - (5 / 28), - (9 / 28), - (5 / 28)])"
proof -
  from two_triangles_neighbors obtain bvars alpha where
    n: "stiffness_neighbors 4294967295 two_triangles 0
       [(0, 1), (0, 2), (0, 3), (1, 2), (1, 3)] [0, 3, 1, 0, 4, 2] [[0, 3], [2], [5], [1], [4]]
       = Inr (bvars, alpha, [- (3 / 2), - (5 / 6), - (3 / 2), - (5 / 6)])"
    by blast
  have m: "map (\<lambda>a. a / - ([- (3 / 2), - (5 / 6), - (3 / 2), - (5 / 6 :: real)] ! 0
      + [- (3 / 2), - (5 / 6), - (3 / 2), - (5 / 6)] ! 1
      + [- (3 / 2), - (5 / 6), - (3 / 2), - (5 / 6)] ! 2
      + [- (3 / 2), - (5 / 6), - (3 / 2), - (5 / 6)] ! 3))
        [- (3 / 2), - (5 / 6), - (3 / 2), - (5 / 6)]
      = [- (9 / 28), - (5 / 28), - (9 / 28), - (5 / 28)]"
    by simp
  have nz: "[- (3 / 2), - (5 / 6), - (3 / 2), - (5 / 6 :: real)] ! 0
      + [- (3 / 2), - (5 / 6), - (3 / 2), - (5 / 6)] ! 1
      + [- (3 / 2), - (5 / 6), - (3 / 2), - (5 / 6)] ! 2
      + [- (3 / 2), - (5 / 6), - (3 / 2), - (5 / 6)] ! 3 \<noteq> 0"
    by simp
  from normalized_weights_sum [OF n] have
    "\<exists>w'. normalize_CR [- (3 / 2), - (5 / 6), - (3 / 2), - (5 / 6)] = Some w' \<and>
       w' = [- (9 / 28), - (5 / 28), - (9 / 28), - (5 / 28)] \<and>
       sum_list w' = - 1 \<and>
       stiffness_coefficient 4294967295 two_triangles 0
         [(0, 1), (0, 2), (0, 3), (1, 2), (1, 3)] [0, 3, 1, 0, 4, 2]
         [[0, 3], [2], [5], [1], [4]]
         = Inr (emit_coefficients 0 bvars alpha w')"
    unfolding if_not_P [OF nz] m by (rule conjunct2)
  with n show ?thesis
    by blast
qed

subsection \<open>Field extraction\<close>

lemma atan2_bounds: "- pi < atan2 y x \<and> atan2 y x \<le> pi"
proof -
  have lb: "- (pi / 2) < arctan (y / x)" and ub: "arctan (y / x) < pi / 2"
    by (rule arctan_lbound, rule arctan_ubound)
  have neg: "x < 0 \<Longrightarrow> 0 \<le> y \<Longrightarrow> arctan (y / x) \<le> 0"
    by (simp add: divide_nonneg_neg)
  have pos: "x < 0 \<Longrightarrow> y < 0 \<Longrightarrow> 0 < arctan (y / x)"
    by (simp add: divide_neg_neg)
  show ?thesis
    using lb ub neg pos pi_gt_zero by (auto simp: atan2_def)
qed

text \<open>
  Claim C6, as the code has it. The angle of an edge is the \<open>atan2\<close> of its
  normalised pair of unknowns divided by four (and \<open>0\<close> for a pair of magnitude at
  most \<open>EPS\<close>); it lies between \<open>-\<pi>/4\<close> and \<open>\<pi>/4\<close>.
\<close>

theorem edge_angle_range:
  "edge_angle x e =
     (if sqrt (x ! (2 * e) * x ! (2 * e) + x ! (2 * e + 1) * x ! (2 * e + 1)) > EPS
      then atan2
             (x ! (2 * e + 1) /
                sqrt (x ! (2 * e) * x ! (2 * e) + x ! (2 * e + 1) * x ! (2 * e + 1)))
             (x ! (2 * e) /
                sqrt (x ! (2 * e) * x ! (2 * e) + x ! (2 * e + 1) * x ! (2 * e + 1))) / 4
      else 0) \<and>
   - (pi / 4) \<le> edge_angle x e \<and> edge_angle x e \<le> pi / 4"
  using atan2_bounds [of
      "x ! (2 * e + 1) / sqrt (x ! (2 * e) * x ! (2 * e) + x ! (2 * e + 1) * x ! (2 * e + 1))"
      "x ! (2 * e) / sqrt (x ! (2 * e) * x ! (2 * e) + x ! (2 * e + 1) * x ! (2 * e + 1))"]
    pi_gt_zero
  by (auto simp: edge_angle_def Let_def)

text \<open>
  Claim C6 as stated fails: the pair \<open>(0, -1)\<close> of an edge gives the angle \<open>-\<pi>/8\<close>,
  which is not in \<open>[0, 2\<pi>)\<close>.
\<close>

theorem edge_angle_negative:
  "\<not> (0 \<le> edge_angle [0, - 1] 0 \<and> edge_angle [0, - 1] 0 < 2 * pi)"
  by (simp add: edge_angle_def atan2_def EPS_def)

lemma foldl_upd_lookup:
  "foldl (\<lambda>m e. m(f e \<mapsto> g e)) m es k =
     (if k \<in> f ` set es then Some (g (last (filter (\<lambda>e. f e = k) es))) else m k)"
proof (induction es rule: rev_induct)
  case Nil
  then show ?case by simp
next
  case (snoc e es)
  then show ?case by auto
qed

lemma filter_eq_upt: "e < n \<Longrightarrow> filter (\<lambda>e'. e' = e) [0..<n] = [e]"
  by (induction n) (auto simp: filter_empty_conv)

lemma fill_edge_to_angle_lookup:
  assumes "distinct uIEdges" and "e < length uIEdges"
  shows "fill_edge_to_angle uIEdges x m (uIEdges ! e) = Some (edge_angle x e)"
proof -
  have "filter (\<lambda>e'. uIEdges ! e' = uIEdges ! e) [0..<length uIEdges] = [e]"
  proof -
    have "filter (\<lambda>e'. uIEdges ! e' = uIEdges ! e) [0..<length uIEdges]
          = filter (\<lambda>e'. e' = e) [0..<length uIEdges]"
      using assms by (intro filter_cong) (auto simp: nth_eq_iff_index_eq)
    also have "\<dots> = [e]"
      using assms(2) by (rule filter_eq_upt)
    finally show ?thesis .
  qed
  then show ?thesis
    using assms(2) by (simp add: fill_edge_to_angle_def foldl_upd_lookup)
qed

lemma fill_edge_to_angle_dom:
  "dom (fill_edge_to_angle uIEdges x m) = dom m \<union> set uIEdges"
proof -
  have "(\<lambda>e. uIEdges ! e) ` set [0..<length uIEdges] = set uIEdges"
    using set_conv_nth [of uIEdges] by auto
  then show ?thesis
    by (auto simp: fill_edge_to_angle_def foldl_upd_lookup dom_def split: if_splits)
qed

lemma sorted_remdups_adj_distinct: "sorted xs \<Longrightarrow> distinct (remdups_adj xs)"
  by (induction xs rule: remdups_adj.induct) auto

lemma sort_unique_distinct: "distinct (fst (sort_unique_with_perm faces))"
  by (simp add: sort_unique_with_perm_def Let_def sorted_remdups_adj_distinct)

lemma unique_edges_distinct:
  "compute_triangle_adjacencies no_id tris tbl0 = Some (tn, nm, uIEdges, old2IEdge, uIEdgeToOld)
     \<Longrightarrow> distinct uIEdges"
  using sort_unique_distinct [of "collect_faces tris"]
  by (auto simp: compute_triangle_adjacencies_def Let_def split: prod.splits option.splits)

subsection \<open>Adjacency\<close>

lemma adj_edge_None:
  "adj_edge no_id edge occ s = None \<longleftrightarrow> half_sentinel no_id edge"
  by (cases s) (simp add: adj_edge_def half_sentinel_def Let_def)

lemma adj_loop_None:
  "adj_loop no_id uIEdges uIEdgeToOld es s = None \<longleftrightarrow>
     (\<exists>e\<in>set es. half_sentinel no_id (uIEdges ! e))"
proof (induction es arbitrary: s)
  case Nil
  then show ?case by simp
next
  case (Cons e es)
  show ?case
  proof (cases "adj_edge no_id (uIEdges ! e) (uIEdgeToOld ! e) s")
    case None
    then show ?thesis using adj_edge_None [of no_id "uIEdges ! e" "uIEdgeToOld ! e" s] by simp
  next
    case (Some s')
    then have "\<not> half_sentinel no_id (uIEdges ! e)"
      using adj_edge_None [of no_id "uIEdges ! e" "uIEdgeToOld ! e" s] by simp
    with Some Cons.IH [of s'] show ?thesis by simp
  qed
qed

text \<open>
  Claim C4, as the code has it. \<^const>\<open>compute_triangle_adjacencies\<close> returns false
  exactly when some unique edge has the sentinel in exactly one of its two components.
  A unique edge whose two components are both the sentinel is skipped (line 122) and
  does not make the function fail.
\<close>

theorem adjacencies_fail_iff:
  "compute_triangle_adjacencies no_id tris tbl0 = None \<longleftrightarrow>
     (\<exists>edge \<in> set (fst (sort_unique_with_perm (collect_faces tris))).
        half_sentinel no_id edge)"
proof -
  obtain uIEdges old2IEdge where su: "sort_unique_with_perm (collect_faces tris) = (uIEdges, old2IEdge)"
    by (cases "sort_unique_with_perm (collect_faces tris)")
  have "compute_triangle_adjacencies no_id tris tbl0 = None \<longleftrightarrow>
      adj_loop no_id uIEdges
        (build_uIEdgeToOld (length tris) old2IEdge (length uIEdges) tbl0)
        [0..<length uIEdges]
        (replicate (length tris) [int no_id, int no_id, int no_id], []) = None"
    by (simp add: compute_triangle_adjacencies_def su Let_def split: option.splits)
  also have "\<dots> \<longleftrightarrow> (\<exists>e\<in>set [0..<length uIEdges]. half_sentinel no_id (uIEdges ! e))"
    by (rule adj_loop_None)
  also have "\<dots> \<longleftrightarrow> (\<exists>edge \<in> set uIEdges. half_sentinel no_id edge)"
    unfolding set_conv_nth [of uIEdges] by fastforce
  finally show ?thesis by (simp add: su)
qed

theorem adjacencies_fail_iff_witness:
  "compute_triangle_adjacencies 4294967295 [(0, 1, 4294967295)] [] = None"
proof -
  have "fst (sort_unique_with_perm (collect_faces [(0, 1, 4294967295)]))
      = [(0, 1), (0, 4294967295), (1, 4294967295)]"
    by (simp add: sort_unique_with_perm_def collect_faces_def sort_face_def upt_rec)
  then show ?thesis
    using adjacencies_fail_iff [of 4294967295 "[(0, 1, 4294967295)]" "[]"]
    by (simp add: half_sentinel_def)
qed

text \<open>
  Claim C4 as stated fails for the pair made of two sentinels: a triangle whose three
  vertices are the sentinel yields that pair as its only unique edge, and the function
  returns true.
\<close>

theorem sentinel_face_is_skipped:
  "(4294967295, 4294967295) \<in> set (fst (sort_unique_with_perm
       (collect_faces [(4294967295, 4294967295, 4294967295)]))) \<and>
   compute_triangle_adjacencies 4294967295 [(4294967295, 4294967295, 4294967295)] []
     = Some ([[4294967295, 4294967295, 4294967295]], [], [(4294967295, 4294967295)],
              [0, 0, 0], [[0, 1, 2]])"
  by (simp add: compute_triangle_adjacencies_def sort_unique_with_perm_def collect_faces_def
      sort_face_def build_uIEdgeToOld_def resize_rows_def push_occurrence_def adj_edge_def
      upt_rec)

subsection \<open>Dirichlet marks and assembly\<close>

lemma nth_update_True: "e < length d \<Longrightarrow> d[a := True] ! e \<longleftrightarrow> a = e \<or> d ! e"
  by (cases "a = e") auto

lemma mark_by_count:
  "e < length d \<Longrightarrow>
     foldl (\<lambda>d a. if Q a then d[a := True] else d) d es ! e = (d ! e \<or> (e \<in> set es \<and> Q e))"
  by (induction es arbitrary: d) (auto simp: nth_update_True)

lemma mark_by_count_length:
  "length (foldl (\<lambda>d e. if Q e then d[e := True] else d) d es) = length d"
  by (induction es arbitrary: d) auto

lemma mark_by_line:
  "e < length d \<Longrightarrow> d ! e \<Longrightarrow>
     foldl (\<lambda>d l. case g l of None \<Rightarrow> d | Some e' \<Rightarrow> d[e' := True]) d ls ! e"
  by (induction ls arbitrary: d) (auto simp: nth_update_True split: option.splits)

lemma mark_dirichlet_count:
  assumes "e < length uIEdges" and "length (uIEdgeToOld ! e) \<noteq> 2"
  shows "mark_dirichlet M uIEdges uIEdgeToOld ! e"
proof -
  let ?d1 = "foldl (\<lambda>d e. if length (uIEdgeToOld ! e) \<noteq> 2 then d[e := True] else d)
      (replicate (length uIEdges) False) [0..<length uIEdges]"
  have "?d1 ! e"
    using assms by (simp add: mark_by_count)
  moreover have "e < length ?d1"
    using assms(1) by (simp add: mark_by_count_length)
  ultimately show ?thesis
    unfolding mark_dirichlet_def Let_def by (rule mark_by_line [rotated])
qed

lemma shared_endpoint_angle_error:
  "shared_endpoint_angle aedge v1 v2 edg e_x = Inl err \<Longrightarrow> err = ShouldNotHappen"
  by (auto simp: shared_endpoint_angle_def split: if_splits)

lemma neighbor_edge_error:
  "neighbor_edge M uIEdges old2IEdge v1 v2 e_x e_y t le s k st = Inl err \<Longrightarrow>
     err = NeighborTooSmall \<or> err = ShouldNotHappen \<or> err = DivisionByZero"
  by (cases st)
    (auto simp: neighbor_edge_def Let_def split: if_splits sum.splits option.splits
      dest: shared_endpoint_angle_error)

lemma incident_triangle_error:
  "incident_triangle M e uIEdges old2IEdge uIEdgeToOld v1 v2 e_x s pst = Inl err \<Longrightarrow>
     err = FrameTooSmall \<or> err = NeighborTooSmall \<or> err = ShouldNotHappen \<or>
     err = DivisionByZero"
  by (cases pst)
    (auto simp: incident_triangle_def Let_def split: if_splits sum.splits
      dest: neighbor_edge_error)

lemma stiffness_occurrence_error:
  "stiffness_coefficient no_id M e uIEdges old2IEdge uIEdgeToOld = Inl OccurrenceCount \<Longrightarrow>
     length (uIEdgeToOld ! e) \<noteq> 2"
  by (auto simp: stiffness_coefficient_def stiffness_neighbors_def Let_def
      split: if_splits sum.splits option.splits dest: incident_triangle_error)

lemma assemble_loop_error:
  "assemble_loop no_id M uIEdges old2IEdge uIEdgeToOld dE es st = Inl err \<Longrightarrow>
     \<exists>e\<in>set es. \<exists>serr. err = StiffnessFailed e serr \<and> \<not> dE ! e \<and>
        stiffness_coefficient no_id M e uIEdges old2IEdge uIEdgeToOld = Inl serr"
proof (induction es arbitrary: st)
  case Nil
  then show ?case by simp
next
  case (Cons e es)
  show ?case
  proof (cases "assemble_edge no_id M uIEdges old2IEdge uIEdgeToOld dE e st")
    case (Inl err')
    with Cons.prems have "err' = err" by simp
    with Inl show ?thesis
      by (cases st) (auto simp: assemble_edge_def Let_def split: if_splits sum.splits)
  next
    case (Inr st')
    with Cons.prems Cons.IH [of st'] show ?thesis by auto
  qed
qed

lemma assemble_no_occurrence_error:
  "assemble no_id M uIEdges old2IEdge uIEdgeToOld (mark_dirichlet M uIEdges uIEdgeToOld)
     \<noteq> Inl (StiffnessFailed e OccurrenceCount)"
proof
  assume "assemble no_id M uIEdges old2IEdge uIEdgeToOld
      (mark_dirichlet M uIEdges uIEdgeToOld) = Inl (StiffnessFailed e OccurrenceCount)"
  from assemble_loop_error [OF this [unfolded assemble_def]]
  have "e < length uIEdges" "\<not> mark_dirichlet M uIEdges uIEdgeToOld ! e"
    "stiffness_coefficient no_id M e uIEdges old2IEdge uIEdgeToOld = Inl OccurrenceCount"
    by auto
  with mark_dirichlet_count [of e uIEdges uIEdgeToOld M] stiffness_occurrence_error
  show False by blast
qed

text \<open>
  Claim C9. Every unique edge whose number of occurrences differs from two is marked
  Dirichlet; the assembly calls \<^const>\<open>stiffness_coefficient\<close> for unmarked edges only,
  where it cannot take its occurrence-count branch; so neither the assembly nor the
  whole computation ever fails with that error.
\<close>

theorem occurrence_error_unreachable:
  "(\<forall>e<length uIEdges. length (uIEdgeToOld ! e) \<noteq> 2 \<longrightarrow>
       mark_dirichlet M uIEdges uIEdgeToOld ! e) \<and>
   (\<forall>e<length uIEdges. \<not> mark_dirichlet M uIEdges uIEdgeToOld ! e \<longrightarrow>
       stiffness_coefficient no_id M e uIEdges old2IEdge uIEdgeToOld \<noteq> Inl OccurrenceCount) \<and>
   assemble no_id M uIEdges old2IEdge uIEdgeToOld (mark_dirichlet M uIEdges uIEdgeToOld)
     \<noteq> Inl (StiffnessFailed e' OccurrenceCount) \<and>
   compute_cross_field_with_heat solve no_id M nbIter m
     \<noteq> Inl (StiffnessFailed e' OccurrenceCount)"
proof -
  have "compute_cross_field_with_heat solve no_id M nbIter m
     \<noteq> Inl (StiffnessFailed e' OccurrenceCount)"
    using assemble_no_occurrence_error [of no_id M _ _ _ e']
    by (auto simp: compute_cross_field_with_heat_def Let_def
        split: option.splits sum.splits prod.splits if_splits)
  then show ?thesis
    using mark_dirichlet_count [of _ uIEdges uIEdgeToOld M] stiffness_occurrence_error
      assemble_no_occurrence_error
    by blast
qed

lemma two_triangles_marks:
  "mark_dirichlet two_triangles [(0, 1), (0, 2), (0, 3), (1, 2), (1, 3)]
     [[0, 3], [2], [5], [1], [4]] = [False, True, True, True, True]"
  by (simp add: mark_dirichlet_def two_triangles_def upt_rec)

theorem occurrence_error_unreachable_witness:
  "length ([[0, 3], [2], [5], [1], [4 :: nat]] ! 1) \<noteq> 2 \<and>
   mark_dirichlet two_triangles [(0, 1), (0, 2), (0, 3), (1, 2), (1, 3)]
     [[0, 3], [2], [5], [1], [4]] ! 1 \<and>
   \<not> mark_dirichlet two_triangles [(0, 1), (0, 2), (0, 3), (1, 2), (1, 3)]
     [[0, 3], [2], [5], [1], [4]] ! 0 \<and>
   stiffness_coefficient 4294967295 two_triangles 0 [(0, 1), (0, 2), (0, 3), (1, 2), (1, 3)]
     [0, 3, 1, 0, 4, 2] [[0, 3], [2], [5], [1], [4]] \<noteq> Inl OccurrenceCount"
proof -
  let ?U = "[(0 :: nat, 1 :: nat), (0, 2), (0, 3), (1, 2), (1, 3)]"
  let ?T = "[[0, 3], [2], [5], [1], [4 :: nat]]"
  note th = occurrence_error_unreachable [of ?U ?T two_triangles 4294967295 "[0, 3, 1, 0, 4, 2]"]
  have "(1 :: nat) < length ?U" and one: "length (?T ! 1) \<noteq> 2"
    by simp_all
  with th have m1: "mark_dirichlet two_triangles ?U ?T ! 1"
    by blast
  have "(0 :: nat) < length ?U" and m0: "\<not> mark_dirichlet two_triangles ?U ?T ! 0"
    by (simp_all only: two_triangles_marks nth_Cons_0 list.size) simp_all
  with th have "stiffness_coefficient 4294967295 two_triangles 0 ?U [0, 3, 1, 0, 4, 2] ?T
      \<noteq> Inl OccurrenceCount"
    by blast
  with one m1 m0 show ?thesis
    by blast
qed

subsection \<open>The computation on a single triangle\<close>

lemma single_triangle_adjacencies:
  "compute_triangle_adjacencies 4294967295 (triangles single_triangle) [] =
     Some ([[4294967295, 4294967295, 4294967295]], [], [(0, 1), (0, 2), (1, 2)],
           [0, 2, 1], [[0], [2], [1]])"
  by (simp add: single_triangle_def compute_triangle_adjacencies_def
      sort_unique_with_perm_def collect_faces_def
      sort_face_def build_uIEdgeToOld_def resize_rows_def push_occurrence_def adj_edge_def
      set_slot_def upt_rec)

lemma replicate_six: "replicate 6 x = [x, x, x, x, x, x]"
  by (simp add: numeral_eq_Suc)

lemma single_triangle_marks:
  "mark_dirichlet single_triangle [(0, 1), (0, 2), (1, 2)] [[0], [2], [1]] = [True, True, True]"
  by (simp add: mark_dirichlet_def single_triangle_def upt_rec)

lemma single_triangle_assemble:
  "assemble 4294967295 single_triangle [(0, 1), (0, 2), (1, 2)] [0, 2, 1] [[0], [2], [1]]
     [True, True, True] =
   Inr ([\<lparr>iv_i = 0, iv_val = 1\<rparr>, \<lparr>iv_i = 1, iv_val = 1\<rparr>, \<lparr>iv_i = 2, iv_val = 1\<rparr>,
         \<lparr>iv_i = 3, iv_val = 1\<rparr>, \<lparr>iv_i = 4, iv_val = 1\<rparr>, \<lparr>iv_i = 5, iv_val = 1\<rparr>],
        [], [1, 0, 1, 0, 1, 0], [1, 1, 1, 1, 1, 1])"
  by (simp add: assemble_def assemble_edge_def upt_rec replicate_six)

lemma single_triangle_system:
  "prepare_system [\<lparr>iv_i = 0, iv_val = 1\<rparr>, \<lparr>iv_i = 1, iv_val = 1\<rparr>, \<lparr>iv_i = 2, iv_val = 1\<rparr>,
         \<lparr>iv_i = 3, iv_val = 1\<rparr>, \<lparr>iv_i = 4, iv_val = 1\<rparr>, \<lparr>iv_i = 5, iv_val = 1\<rparr>] []
      [[], [], [], [], [], []] [[], [], [], [], [], []] =
   Some ([[0], [1], [2], [3], [4], [5]], [[1], [1], [1], [1], [1], [1]])"
  by (simp add: prepare_system_def merge_step_def flush_def EPS_def)

lemma single_triangle_diffusion:
  "snd (diffusion unit_diagonal_solver [True, True, True]
          [[0], [1], [2], [3], [4], [5]] [[1], [1], [1], [1], [1], [1]]
          [1, 1, 1, 1, 1, 1] 3 emin emax nb [1, 0, 1, 0, 1, 0]) = Some [1, 0, 1, 0, 1, 0]"
  by (simp add: diffusion_def heat_iteration_def heat_operator_def renormalize_def
        unit_diagonal_solver_def upt_rec Let_def)


lemma single_triangle_angles:
  "fill_edge_to_angle [(0, 1), (0, 2), (1, 2)] [1, 0, 1, 0, 1, 0] Map.empty =
     [(0, 1) \<mapsto> 0, (0, 2) \<mapsto> 0, (1, 2) \<mapsto> 0]"
  by (simp add: fill_edge_to_angle_def edge_angle_def atan2_def EPS_def upt_rec)

text \<open>
  Claim C5 as stated fails. The three unique edges of a single triangle have one
  occurrence each, so no edge is shared by two triangles; the computation does not
  fail but returns the angle 0 for each of the three edges.
\<close>

theorem single_triangle_succeeds:
  "compute_triangle_adjacencies 4294967295 (triangles single_triangle) [] =
     Some ([[4294967295, 4294967295, 4294967295]], [], [(0, 1), (0, 2), (1, 2)],
           [0, 2, 1], [[0], [2], [1]]) \<and>
   compute_cross_field_with_heat unit_diagonal_solver 4294967295 single_triangle 10
       (Some Map.empty) =
     Inr (Some [(0, 1) \<mapsto> 0, (0, 2) \<mapsto> 0, (1, 2) \<mapsto> 0])"
proof -
  obtain eavg emin emax where
    sizes: "edge_sizes single_triangle [(0, 1), (0, 2), (1, 2)] = (eavg, emin, emax)"
    by (cases "edge_sizes single_triangle [(0, 1), (0, 2), (1, 2)]")
  obtain tr where run: "diffusion unit_diagonal_solver [True, True, True]
          [[0], [1], [2], [3], [4], [5]] [[1], [1], [1], [1], [1], [1]]
          [1, 1, 1, 1, 1, 1] 3 emin emax 10 [1, 0, 1, 0, 1, 0] = (tr, Some [1, 0, 1, 0, 1, 0])"
    using single_triangle_diffusion [of emin emax 10]
    by (cases "diffusion unit_diagonal_solver [True, True, True]
          [[0], [1], [2], [3], [4], [5]] [[1], [1], [1], [1], [1], [1]]
          [1, 1, 1, 1, 1, 1] 3 emin emax 10 [1, 0, 1, 0, 1, 0]") simp
  have len: "length [(0 :: nat, 1 :: nat), (0, 2), (1, 2)] = 3"
    by simp
  have nz: "((3 :: nat) = 0) = False"
    by simp
  have rep: "replicate (2 * 3) x = [x, x, x, x, x, x]" for x :: "'a list"
    by (simp add: replicate_six)
  have "compute_cross_field_with_heat unit_diagonal_solver 4294967295 single_triangle 10
       (Some Map.empty) =
     Inr (Some [(0, 1) \<mapsto> 0, (0, 2) \<mapsto> 0, (1, 2) \<mapsto> 0])"
    by (simp only: compute_cross_field_with_heat_def single_triangle_adjacencies len Let_def
      single_triangle_marks single_triangle_assemble sizes rep single_triangle_system run
      option.case prod.case sum.case option.map single_triangle_angles nz if_False)
  with single_triangle_adjacencies show ?thesis ..
qed

lemma collect_faces_empty: "collect_faces tris = [] \<longleftrightarrow> tris = []"
  by (cases tris) (simp_all add: collect_faces_def upt_rec)

lemma sort_unique_empty: "fst (sort_unique_with_perm faces) = [] \<longleftrightarrow> faces = []"
proof -
  have "sort faces = [] \<longleftrightarrow> faces = []"
    using length_sort [of "\<lambda>x. x" faces] by (metis length_0_conv)
  then show ?thesis
    by (simp add: sort_unique_with_perm_def Let_def)
qed

lemma assemble_error:
  "assemble no_id M uIEdges old2IEdge uIEdgeToOld dE = Inl err \<Longrightarrow>
     \<exists>e serr. err = StiffnessFailed e serr"
  unfolding assemble_def by (blast dest: assemble_loop_error)

text \<open>
  Claim C5, as the code has it. The test of line 464 is on the number of unique
  edges, boundary edges included: the computation fails with ``no internal edges''
  exactly when the mesh has no triangle.
\<close>

theorem no_internal_edges_iff:
  "compute_cross_field_with_heat solve no_id M nbIter m = Inl NoInternalEdges \<longleftrightarrow>
     triangles M = []"
proof
  assume "triangles M = []"
  then show "compute_cross_field_with_heat solve no_id M nbIter m = Inl NoInternalEdges"
    by (simp add: compute_cross_field_with_heat_def compute_triangle_adjacencies_def
        collect_faces_def sort_unique_with_perm_def)
next
  assume err: "compute_cross_field_with_heat solve no_id M nbIter m = Inl NoInternalEdges"
  then obtain tn nm uIEdges old2IEdge uIEdgeToOld where
    adj: "compute_triangle_adjacencies no_id (triangles M) [] =
      Some (tn, nm, uIEdges, old2IEdge, uIEdgeToOld)"
    by (auto simp: compute_cross_field_with_heat_def split: option.splits)
  have "uIEdges = []"
  proof (rule ccontr)
    assume "uIEdges \<noteq> []"
    with err adj show False
      by (auto simp: compute_cross_field_with_heat_def Let_def
          split: option.splits sum.splits prod.splits dest: assemble_error)
  qed
  moreover from adj have "uIEdges = fst (sort_unique_with_perm (collect_faces (triangles M)))"
    by (auto simp: compute_triangle_adjacencies_def Let_def split: option.splits prod.splits)
  ultimately show "triangles M = []"
    by (simp add: sort_unique_empty collect_faces_empty)
qed

theorem no_internal_edges_iff_witness:
  "compute_cross_field_with_heat unit_diagonal_solver 4294967295
     \<lparr>points = [], lines = [], triangles = []\<rparr> 10 None = Inl NoInternalEdges"
  using no_internal_edges_iff [of unit_diagonal_solver 4294967295
      "\<lparr>points = [], lines = [], triangles = []\<rparr>" 10 None]
  by simp

subsection \<open>Rows of the compacted system\<close>

lemma flush_length:
  "flush (cols, vals) ci cj a = (cols', vals') \<Longrightarrow>
     length cols' = length cols \<and> length vals' = length vals"
  by (auto simp: flush_def split: if_splits)

lemma flush_other_row:
  "flush (cols, vals) ci cj a = (cols', vals') \<Longrightarrow> ci \<noteq> r \<Longrightarrow>
     cols' ! r = cols ! r \<and> vals' ! r = vals ! r"
  by (auto simp: flush_def split: if_splits)

lemma flush_unit:
  "r < length cols \<Longrightarrow> r < length vals \<Longrightarrow> cols ! r = [] \<Longrightarrow> vals ! r = [] \<Longrightarrow>
     flush (cols, vals) r r 1 = (cols', vals') \<Longrightarrow>
     cols' ! r = [r] \<and> vals' ! r = [1]"
  by (auto simp: flush_def EPS_def split: if_splits)

text \<open>Entries of other rows leave row \<open>r\<close> as it is.\<close>

lemma merge_other_rows:
  assumes "foldl merge_step (ci, cj, a, (cols, vals)) cs = (ci', cj', a', (cols', vals'))"
    and "ci \<noteq> r" and "\<forall>c\<in>set cs. fst (ijv_ij c) \<noteq> r"
  shows "ci' \<noteq> r \<and> cols' ! r = cols ! r \<and> vals' ! r = vals ! r \<and>
     length cols' = length cols \<and> length vals' = length vals"
  using assms
proof (induction cs arbitrary: ci cj a cols vals)
  case Nil
  then show ?case by simp
next
  case (Cons c cs)
  obtain ci1 cj1 a1 cols1 vals1 where
    step: "merge_step (ci, cj, a, (cols, vals)) c = (ci1, cj1, a1, (cols1, vals1))"
    by (metis prod_cases5)
  have one: "ci1 \<noteq> r \<and> cols1 ! r = cols ! r \<and> vals1 ! r = vals ! r \<and>
     length cols1 = length cols \<and> length vals1 = length vals"
  proof (cases "fst (ijv_ij c) = ci \<and> snd (ijv_ij c) = cj")
    case True
    with step Cons.prems(2) show ?thesis
      by (auto simp: merge_step_def Let_def)
  next
    case False
    with step have "flush (cols, vals) ci cj a = (cols1, vals1)"
      and "ci1 = fst (ijv_ij c)"
      by (auto simp: merge_step_def Let_def split: if_splits)
    with Cons.prems(2,3) flush_other_row [of cols vals ci cj a cols1 vals1 r]
      flush_length [of cols vals ci cj a cols1 vals1]
    show ?thesis by simp
  qed
  from Cons.prems(1) step
  have "foldl merge_step (ci1, cj1, a1, (cols1, vals1)) cs
      = (ci', cj', a', (cols', vals'))"
    by simp
  from Cons.IH [OF this] one Cons.prems(3) show ?case by simp
qed

text \<open>
  A pending unit diagonal entry of row \<open>r\<close>, followed by entries of other rows only,
  ends as the only entry of row \<open>r\<close>.
\<close>

lemma merge_pending_unit:
  assumes "foldl merge_step (r, r, 1, (cols, vals)) cs = (ci', cj', a', cv')"
    and "flush cv' ci' cj' a' = (cols', vals')"
    and "\<forall>c\<in>set cs. fst (ijv_ij c) \<noteq> r"
    and "r < length cols" "r < length vals" "cols ! r = []" "vals ! r = []"
  shows "cols' ! r = [r] \<and> vals' ! r = [1] \<and>
     length cols' = length cols \<and> length vals' = length vals"
proof (cases cs)
  case Nil
  with assms show ?thesis
    using flush_unit [of r cols vals cols' vals']
      flush_length [of cols vals r r 1 cols' vals']
    by auto
next
  case (Cons c cs')
  obtain cols1 vals1 where fl: "flush (cols, vals) r r 1 = (cols1, vals1)"
    by (cases "flush (cols, vals) r r 1")
  from Cons assms(3) have c: "fst (ijv_ij c) \<noteq> r" and cs': "\<forall>c\<in>set cs'. fst (ijv_ij c) \<noteq> r"
    by simp_all
  from c fl have "merge_step (r, r, 1, (cols, vals)) c
      = (fst (ijv_ij c), snd (ijv_ij c), ijv_val c, (cols1, vals1))"
    by (auto simp: merge_step_def Let_def)
  with assms(1) Cons have run: "foldl merge_step
      (fst (ijv_ij c), snd (ijv_ij c), ijv_val c, (cols1, vals1)) cs' = (ci', cj', a', cv')"
    by simp
  obtain cols2 vals2 where cv': "cv' = (cols2, vals2)"
    by (cases cv')
  from merge_other_rows [OF run [unfolded cv'] c cs']
  have two: "ci' \<noteq> r" "cols2 ! r = cols1 ! r" "vals2 ! r = vals1 ! r"
    "length cols2 = length cols1" "length vals2 = length vals1"
    by simp_all
  from flush_unit [OF assms(4-7) fl] flush_length [OF fl]
  have one: "cols1 ! r = [r]" "vals1 ! r = [1]"
    "length cols1 = length cols" "length vals1 = length vals"
    by simp_all
  from assms(2) cv' two(1)
    flush_other_row [of cols2 vals2 ci' cj' a' cols' vals' r]
    flush_length [of cols2 vals2 ci' cj' a' cols' vals']
  show ?thesis using one two by simp
qed

text \<open>
  If exactly one entry of the list has row \<open>r\<close>, and it is the unit diagonal entry,
  the compacted row \<open>r\<close> is the isolated unit diagonal.
\<close>

lemma merge_single_unit:
  assumes "foldl merge_step (fst (ijv_ij c0), snd (ijv_ij c0), ijv_val c0, (cols, vals)) cs
      = (ci', cj', a', cv')"
    and "flush cv' ci' cj' a' = (cols', vals')"
    and "filter (\<lambda>c. fst (ijv_ij c) = r) (c0 # cs) = [u]"
    and "ijv_ij u = (r, r)" "ijv_val u = 1"
    and "r < length cols" "r < length vals" "cols ! r = []" "vals ! r = []"
  shows "cols' ! r = [r] \<and> vals' ! r = [1]"
proof (cases "fst (ijv_ij c0) = r")
  case True
  with assms(3) have "c0 = u" and "filter (\<lambda>c. fst (ijv_ij c) = r) cs = []"
    by simp_all
  then have "\<forall>c\<in>set cs. fst (ijv_ij c) \<noteq> r"
    and "fst (ijv_ij c0) = r" "snd (ijv_ij c0) = r" "ijv_val c0 = 1"
    using assms(4,5) by (simp_all add: filter_empty_conv)
  with merge_pending_unit [of r cols vals cs ci' cj' a' cv' cols' vals'] assms
  show ?thesis by simp
next
  case False
  with assms(3) have "filter (\<lambda>c. fst (ijv_ij c) = r) cs = [u]"
    by simp
  then obtain pre post where cs: "cs = pre @ u # post"
    and pre: "\<forall>c\<in>set pre. fst (ijv_ij c) \<noteq> r"
    and post: "filter (\<lambda>c. fst (ijv_ij c) = r) post = []"
    unfolding filter_eq_Cons_iff by auto
  from post have post: "\<forall>c\<in>set post. fst (ijv_ij c) \<noteq> r"
    by (simp add: filter_empty_conv)
  obtain ci1 cj1 a1 cols1 vals1 where run1:
    "foldl merge_step (fst (ijv_ij c0), snd (ijv_ij c0), ijv_val c0, (cols, vals)) pre
       = (ci1, cj1, a1, (cols1, vals1))"
    by (metis prod_cases5)
  from merge_other_rows [OF run1 False pre]
  have one: "ci1 \<noteq> r" "cols1 ! r = cols ! r" "vals1 ! r = vals ! r"
    "length cols1 = length cols" "length vals1 = length vals"
    by simp_all
  obtain cols2 vals2 where fl: "flush (cols1, vals1) ci1 cj1 a1 = (cols2, vals2)"
    by (cases "flush (cols1, vals1) ci1 cj1 a1")
  from flush_other_row [OF fl one(1)] flush_length [OF fl]
  have two: "cols2 ! r = cols1 ! r" "vals2 ! r = vals1 ! r"
    "length cols2 = length cols1" "length vals2 = length vals1"
    by simp_all
  from one(1) fl assms(4,5)
  have "merge_step (ci1, cj1, a1, (cols1, vals1)) u = (r, r, 1, (cols2, vals2))"
    by (auto simp: merge_step_def Let_def)
  with assms(1) cs run1
  have "foldl merge_step (r, r, 1, (cols2, vals2)) post = (ci', cj', a', cv')"
    by simp
  from merge_pending_unit [OF this assms(2) post] one two assms(6-9)
  show ?thesis by simp
qed

lemma merge_lengths:
  "foldl merge_step (ci, cj, a, (cols, vals)) cs = (ci', cj', a', (cols', vals')) \<Longrightarrow>
     length cols' = length cols \<and> length vals' = length vals"
proof (induction cs arbitrary: ci cj a cols vals)
  case Nil
  then show ?case by simp
next
  case (Cons c cs)
  obtain ci1 cj1 a1 cols1 vals1 where
    step: "merge_step (ci, cj, a, (cols, vals)) c = (ci1, cj1, a1, (cols1, vals1))"
    by (metis prod_cases5)
  then have "length cols1 = length cols \<and> length vals1 = length vals"
    by (auto simp: merge_step_def Let_def flush_def split: if_splits)
  with Cons.IH [of ci1 cj1 a1 cols1 vals1] Cons.prems step show ?case by simp
qed

lemma prepare_system_length:
  assumes "prepare_system K_diag K_coefs cols0 vals0 = Some (cols, vals)"
  shows "length cols = length cols0 \<and> length vals = length vals0"
proof -
  let ?S = "sort_key ijv_ij
      (K_coefs @ map (\<lambda>d. \<lparr>ijv_ij = (iv_i d, iv_i d), ijv_val = iv_val d\<rparr>) K_diag)"
  from assms obtain c0 cs where S: "?S = c0 # cs"
    by (cases ?S) (simp_all add: prepare_system_def)
  obtain ci' cj' a' cols1 vals1 where run:
    "foldl merge_step (fst (ijv_ij c0), snd (ijv_ij c0), ijv_val c0, (cols0, vals0)) cs
       = (ci', cj', a', (cols1, vals1))"
    by (metis prod_cases5)
  with assms S have "flush (cols1, vals1) ci' cj' a' = (cols, vals)"
    by (simp add: prepare_system_def)
  with merge_lengths [OF run] flush_length [of cols1 vals1 ci' cj' a' cols vals]
  show ?thesis by simp
qed

lemma prepare_system_unit_row:
  assumes "prepare_system K_diag K_coefs cols0 vals0 = Some (cols, vals)"
    and "filter (\<lambda>d. iv_i d = r) K_diag = [\<lparr>iv_i = r, iv_val = 1\<rparr>]"
    and "\<forall>c\<in>set K_coefs. fst (ijv_ij c) \<noteq> r"
    and "r < length cols0" "r < length vals0" "cols0 ! r = []" "vals0 ! r = []"
  shows "cols ! r = [r] \<and> vals ! r = [1]"
proof -
  let ?diag = "\<lambda>d. \<lparr>ijv_ij = (iv_i d, iv_i d), ijv_val = iv_val d\<rparr>"
  let ?L = "K_coefs @ map ?diag K_diag"
  let ?S = "sort_key ijv_ij ?L"
  let ?u = "\<lparr>ijv_ij = (r, r), ijv_val = 1\<rparr>"
  have "filter (\<lambda>c. fst (ijv_ij c) = r) (map ?diag K_diag)
      = map ?diag (filter (\<lambda>d. iv_i d = r) K_diag)"
    by (simp add: filter_map comp_def)
  with assms(2,3) have "filter (\<lambda>c. fst (ijv_ij c) = r) ?L = [?u]"
    by (simp add: filter_empty_conv)
  then have one: "filter (\<lambda>c. fst (ijv_ij c) = r) ?S = [?u]"
    by (simp only: filter_sort sort_key_simps insort_key.simps)
  from assms(1) obtain c0 cs where S: "?S = c0 # cs"
    by (cases ?S) (simp_all add: prepare_system_def)
  obtain ci' cj' a' cv' where run:
    "foldl merge_step (fst (ijv_ij c0), snd (ijv_ij c0), ijv_val c0, (cols0, vals0)) cs
       = (ci', cj', a', cv')"
    by (metis prod_cases4)
  with assms(1) S have fl: "flush cv' ci' cj' a' = (cols, vals)"
    by (simp add: prepare_system_def)
  from one S have "filter (\<lambda>c. fst (ijv_ij c) = r) (c0 # cs) = [?u]"
    by simp
  from merge_single_unit [OF run fl this _ _ assms(4-7)] show ?thesis by simp
qed

subsection \<open>What the assembly emits\<close>

lemma stiffness_coefficient_rows:
  assumes "stiffness_coefficient no_id M e uIEdges old2IEdge uIEdgeToOld = Inr (iv, ijv)"
  shows "iv = [\<lparr>iv_i = 2 * e, iv_val = 1\<rparr>, \<lparr>iv_i = 2 * e + 1, iv_val = 1\<rparr>] \<and>
     (\<forall>c\<in>set ijv. fst (ijv_ij c) = 2 * e \<or> fst (ijv_ij c) = 2 * e + 1)"
proof -
  from assms obtain bvars alpha w where "emit_coefficients e bvars alpha w = (iv, ijv)"
    by (auto simp: stiffness_coefficient_def split: sum.splits option.splits)
  then show ?thesis
    by (auto simp: emit_coefficients_def Let_def)
qed

lemma assemble_edge_result:
  assumes "assemble_edge no_id M uIEdges old2IEdge uIEdgeToOld dE e (Kd, Kc, rhs, Ms)
      = Inr (Kd1, Kc1, rhs1, Ms1)"
  shows "Kd1 = Kd @ [\<lparr>iv_i = 2 * e, iv_val = 1\<rparr>, \<lparr>iv_i = 2 * e + 1, iv_val = 1\<rparr>] \<and>
     (if dE ! e then Kc1 = Kc \<and> rhs1 = rhs[2 * e := 1, 2 * e + 1 := 0]
      else rhs1 = rhs \<and>
        (\<exists>ijv. Kc1 = Kc @ ijv \<and>
           (\<forall>c\<in>set ijv. fst (ijv_ij c) = 2 * e \<or> fst (ijv_ij c) = 2 * e + 1)))"
  using assms
  by (auto simp: assemble_edge_def Let_def split: if_splits sum.splits
      dest!: stiffness_coefficient_rows)

lemma assemble_loop_result:
  assumes "assemble_loop no_id M uIEdges old2IEdge uIEdgeToOld dE es (Kd, Kc, rhs, Ms)
      = Inr (Kd', Kc', rhs', Ms')"
  shows "Kd' = Kd @ concat (map (\<lambda>e. [\<lparr>iv_i = 2 * e, iv_val = 1\<rparr>,
                                        \<lparr>iv_i = 2 * e + 1, iv_val = 1\<rparr>]) es) \<and>
     (\<forall>c\<in>set Kc'. c \<in> set Kc \<or>
        (\<exists>e\<in>set es. \<not> dE ! e \<and> (fst (ijv_ij c) = 2 * e \<or> fst (ijv_ij c) = 2 * e + 1))) \<and>
     length rhs' = length rhs \<and>
     (\<forall>e. dE ! e \<longrightarrow> 2 * e + 1 < length rhs \<longrightarrow> (e \<in> set es \<or> pinned rhs e) \<longrightarrow>
        pinned rhs' e)"
  using assms
proof (induction es arbitrary: Kd Kc rhs Ms)
  case Nil
  then show ?case by simp
next
  case (Cons e0 es)
  from Cons.prems obtain Kd1 Kc1 rhs1 Ms1 where
    step: "assemble_edge no_id M uIEdges old2IEdge uIEdgeToOld dE e0 (Kd, Kc, rhs, Ms)
      = Inr (Kd1, Kc1, rhs1, Ms1)"
    and rest: "assemble_loop no_id M uIEdges old2IEdge uIEdgeToOld dE es (Kd1, Kc1, rhs1, Ms1)
      = Inr (Kd', Kc', rhs', Ms')"
    by (auto split: sum.splits)
  note one = assemble_edge_result [OF step]
  note ih = Cons.IH [OF rest]
  have len1: "length rhs1 = length rhs"
    using one by (auto split: if_splits)
  have pin1: "pinned rhs1 e" if "dE ! e" "2 * e + 1 < length rhs" "e = e0 \<or> pinned rhs e" for e
  proof (cases "dE ! e0")
    case False
    with one that show ?thesis by auto
  next
    case True
    with one have rhs1: "rhs1 = rhs[2 * e0 := 1, 2 * e0 + 1 := 0]"
      by simp
    show ?thesis
    proof (cases "e = e0")
      case True
      with rhs1 that(2) show ?thesis by (simp add: pinned_def)
    next
      case False
      then have "2 * e0 \<noteq> 2 * e" "2 * e0 \<noteq> 2 * e + 1" "2 * e0 + 1 \<noteq> 2 * e"
        "2 * e0 + 1 \<noteq> 2 * e + 1"
        by presburger+
      with rhs1 False that(3) show ?thesis by (simp add: pinned_def)
    qed
  qed
  have "Kd' = Kd @ concat (map (\<lambda>e. [\<lparr>iv_i = 2 * e, iv_val = 1\<rparr>,
                                        \<lparr>iv_i = 2 * e + 1, iv_val = 1\<rparr>]) (e0 # es))"
    using one ih by simp
  moreover have "\<forall>c\<in>set Kc'. c \<in> set Kc \<or>
        (\<exists>e\<in>set (e0 # es). \<not> dE ! e \<and> (fst (ijv_ij c) = 2 * e \<or> fst (ijv_ij c) = 2 * e + 1))"
  proof
    fix c assume "c \<in> set Kc'"
    with ih have "c \<in> set Kc1 \<or>
        (\<exists>e\<in>set es. \<not> dE ! e \<and> (fst (ijv_ij c) = 2 * e \<or> fst (ijv_ij c) = 2 * e + 1))"
      by blast
    moreover have "c \<in> set Kc \<or> (\<not> dE ! e0 \<and> (fst (ijv_ij c) = 2 * e0 \<or> fst (ijv_ij c) = 2 * e0 + 1))"
      if "c \<in> set Kc1"
      using one that by (auto split: if_splits)
    ultimately show "c \<in> set Kc \<or>
        (\<exists>e\<in>set (e0 # es). \<not> dE ! e \<and> (fst (ijv_ij c) = 2 * e \<or> fst (ijv_ij c) = 2 * e + 1))"
      by auto
  qed
  moreover have "length rhs' = length rhs"
    using ih len1 by simp
  moreover have "\<forall>e. dE ! e \<longrightarrow> 2 * e + 1 < length rhs \<longrightarrow> (e \<in> set (e0 # es) \<or> pinned rhs e) \<longrightarrow>
        pinned rhs' e"
  proof (intro allI impI)
    fix e assume e: "dE ! e" "2 * e + 1 < length rhs" "e \<in> set (e0 # es) \<or> pinned rhs e"
    then have "e \<in> set es \<or> pinned rhs1 e"
      using pin1 [of e] by auto
    moreover from e(2) len1 have "2 * e + 1 < length rhs1"
      by simp
    ultimately show "pinned rhs' e"
      using ih e(1) by blast
  qed
  ultimately show ?case by blast
qed

subsection \<open>Dirichlet rows through the diffusion loop\<close>

lemma diag_filter_below:
  "n \<le> e0 \<Longrightarrow>
     filter (\<lambda>d. iv_i d = r) (concat (map (\<lambda>e. [\<lparr>iv_i = 2 * e, iv_val = 1\<rparr>,
        \<lparr>iv_i = 2 * e + 1, iv_val = 1 :: real\<rparr>]) [0..<n])) = []"
  if "r = 2 * e0 \<or> r = 2 * e0 + 1"
  using that by (induction n) (auto, presburger+)

lemma diag_filter_unique:
  assumes "e0 < n" and "r = 2 * e0 \<or> r = 2 * e0 + 1"
  shows "filter (\<lambda>d. iv_i d = r) (concat (map (\<lambda>e. [\<lparr>iv_i = 2 * e, iv_val = 1\<rparr>,
        \<lparr>iv_i = 2 * e + 1, iv_val = 1 :: real\<rparr>]) [0..<n])) = [\<lparr>iv_i = r, iv_val = 1\<rparr>]"
  using assms(1)
proof (induction n)
  case 0
  then show ?case by simp
next
  case (Suc n)
  show ?case
  proof (cases "e0 = n")
    case True
    with assms(2) diag_filter_below [OF assms(2), of n] show ?thesis
      by auto
  next
    case False
    with Suc have "e0 < n" by simp
    moreover from False assms(2) have "2 * n \<noteq> r" "2 * n + 1 \<noteq> r"
      by presburger+
    ultimately show ?thesis using Suc.IH by simp
  qed
qed

lemma heat_operator_rows:
  fixes step :: "real list list \<Rightarrow> nat \<Rightarrow> real list list"
  assumes "\<And>A i. length (step A i) = length A"
    and "\<And>A i. i \<noteq> r \<Longrightarrow> step A i ! r = A ! r"
    and "\<And>A. r < length A \<Longrightarrow> step A r ! r = [1]"
  shows "r \<in> set rs \<Longrightarrow> r < length A \<Longrightarrow> foldl step A rs ! r = [1]"
    and "length (foldl step A rs) = length A"
proof -
  show len: "length (foldl step A rs) = length A" for A rs
    by (induction rs arbitrary: A) (simp_all add: assms(1))
  show "r \<in> set rs \<Longrightarrow> r < length A \<Longrightarrow> foldl step A rs ! r = [1]"
  proof (induction rs rule: rev_induct)
    case Nil
    then show ?case by simp
  next
    case (snoc i rs)
    show ?case
    proof (cases "i = r")
      case True
      with snoc.prems(2) len [of A rs] show ?thesis
        by (simp add: assms(3))
    next
      case False
      with snoc show ?thesis by (simp add: assms(2))
    qed
  qed
qed

lemma heat_operator_dirichlet_row:
  assumes "dE ! (r div 2)" and "r < length K_values"
  shows "heat_operator dE K_columns K_values Mass dt ! r = [1]"
  unfolding heat_operator_def
proof (rule heat_operator_rows(1))
  show "r \<in> set [0..<length K_values]" using assms(2) by simp
  show "r < length K_values" by (rule assms(2))
qed (use assms(1) in \<open>auto simp: nth_list_update\<close>)

lemma renormalize_dirichlet:
  "length (renormalize dE n x) = length x \<and>
   (dE ! e \<longrightarrow> renormalize dE n x ! (2 * e) = x ! (2 * e) \<and>
      renormalize dE n x ! (2 * e + 1) = x ! (2 * e + 1))"
proof -
  let ?step = "\<lambda>x e'.
      let nrm = sqrt (x ! (2 * e') * x ! (2 * e') + x ! (2 * e' + 1) * x ! (2 * e' + 1))
      in if \<not> dE ! e' \<and> nrm > EPS
         then (x[2 * e' + 0 := x ! (2 * e' + 0) / nrm])[2 * e' + 1 := x ! (2 * e' + 1) / nrm]
         else x"
  have "length (foldl ?step x es) = length x \<and>
   (dE ! e \<longrightarrow> foldl ?step x es ! (2 * e) = x ! (2 * e) \<and>
      foldl ?step x es ! (2 * e + 1) = x ! (2 * e + 1))" for es
  proof (induction es arbitrary: x)
    case Nil
    then show ?case by simp
  next
    case (Cons e' es)
    have "length (?step x e') = length x"
      by (simp add: Let_def)
    moreover have "?step x e' ! (2 * e) = x ! (2 * e) \<and> ?step x e' ! (2 * e + 1) = x ! (2 * e + 1)"
      if "dE ! e"
    proof (cases "e' = e")
      case True
      with that show ?thesis by (simp add: Let_def)
    next
      case False
      then have "2 * e' \<noteq> 2 * e" "2 * e' \<noteq> 2 * e + 1" "2 * e' + 1 \<noteq> 2 * e"
        "2 * e' + 1 \<noteq> 2 * e + 1"
        by presburger+
      then show ?thesis by (simp add: Let_def)
    qed
    ultimately show ?case
      using Cons.IH [of "?step x e'"] by simp
  qed
  then show ?thesis
    unfolding renormalize_def by blast
qed

text \<open>The invariant of the loop and its preservation by one iteration.\<close>

lemma heat_iteration_pinned:
  assumes exact: "exact_solver solve"
    and rows: "\<forall>e<n. dE ! e \<longrightarrow>
        K_columns ! (2 * e) = [2 * e] \<and> K_columns ! (2 * e + 1) = [2 * e + 1]"
    and len: "length K_values = 2 * n"
    and step: "heat_iteration solve dE K_columns K_values Mass n dtInitial dtFinal nbIter
        iter x = Some x'"
    and inv: "length x = 2 * n" "\<forall>e<n. dE ! e \<longrightarrow> pinned x e"
  shows "length x' = 2 * n \<and> (\<forall>e<n. dE ! e \<longrightarrow> pinned x' e)"
proof -
  let ?A = "heat_operator dE K_columns K_values Mass (heat_dt dtInitial dtFinal nbIter iter)"
  from step obtain y where y: "solve K_columns ?A x = Some y"
    and x': "x' = renormalize dE n y"
    by (auto simp: heat_iteration_def Let_def split: option.splits)
  from exact y have leny: "length y = length x"
    and sol: "\<forall>r<length x. row_sum (K_columns ! r) (?A ! r) y = x ! r"
    unfolding exact_solver_def by blast+
  have "pinned x' e" if e: "e < n" "dE ! e" for e
  proof -
    have r0: "2 * e < length x" and r1: "2 * e + 1 < length x"
      using e(1) inv(1) by simp_all
    have "?A ! (2 * e) = [1]" "?A ! (2 * e + 1) = [1]"
      using e len by (simp_all add: heat_operator_dirichlet_row)
    moreover have "K_columns ! (2 * e) = [2 * e]" "K_columns ! (2 * e + 1) = [2 * e + 1]"
      using rows e by simp_all
    ultimately have "y ! (2 * e) = x ! (2 * e)" "y ! (2 * e + 1) = x ! (2 * e + 1)"
      using sol [rule_format, OF r0] sol [rule_format, OF r1] by (simp_all add: row_sum_def)
    with inv(2) e have "pinned y e"
      by (simp add: pinned_def)
    with renormalize_dirichlet [of dE n y e] e(2) x' show ?thesis
      by (simp add: pinned_def)
  qed
  moreover have "length x' = 2 * n"
    using x' leny inv(1) renormalize_dirichlet [of dE n y 0] by simp
  ultimately show ?thesis by blast
qed

lemma heat_loop_invariant:
  assumes "\<And>iter x x'. step iter x = Some x' \<Longrightarrow> P x \<Longrightarrow> P x'"
  shows "heat_loop step iters x = (tr, r) \<Longrightarrow> P x \<Longrightarrow>
     (\<forall>y\<in>set tr. P y) \<and> (\<forall>y. r = Some y \<longrightarrow> P y)"
proof (induction iters arbitrary: x tr r)
  case Nil
  then show ?case by auto
next
  case (Cons iter iters)
  show ?case
  proof (cases "step iter x")
    case None
    with Cons.prems show ?thesis by simp
  next
    case (Some x')
    obtain tr' r' where rest: "heat_loop step iters x' = (tr', r')"
      by (cases "heat_loop step iters x'")
    with Some Cons.prems(1) have "tr = x' # tr'" "r = r'"
      by simp_all
    moreover from assms [OF Some Cons.prems(2)] have "P x'" .
    moreover note Cons.IH [OF rest this]
    ultimately show ?thesis by simp
  qed
qed

text \<open>
  Claim C3. Let the external solver return exact solutions. For a mesh whose assembly
  and compaction succeed, after every completed iteration of the diffusion loop, and
  at its end, the pair of unknowns of every edge marked Dirichlet is \<open>(1, 0)\<close>.
\<close>

theorem dirichlet_pinning:
  assumes "exact_solver solve"
    and "assemble no_id M uIEdges old2IEdge uIEdgeToOld
           (mark_dirichlet M uIEdges uIEdgeToOld) = Inr (K_diag, K_coefs, rhs, Mass)"
    and "prepare_system K_diag K_coefs (replicate (2 * length uIEdges) [])
           (replicate (2 * length uIEdges) []) = Some (K_columns, K_values)"
    and "diffusion solve (mark_dirichlet M uIEdges uIEdgeToOld) K_columns K_values Mass
           (length uIEdges) emin emax nbIter rhs = (tr, r)"
    and "e < length uIEdges"
    and "mark_dirichlet M uIEdges uIEdgeToOld ! e"
  shows "(\<forall>x\<in>set tr. x ! (2 * e) = 1 \<and> x ! (2 * e + 1) = 0) \<and>
         (\<forall>x. r = Some x \<longrightarrow> x ! (2 * e) = 1 \<and> x ! (2 * e + 1) = 0)"
proof -
  let ?n = "length uIEdges"
  let ?dE = "mark_dirichlet M uIEdges uIEdgeToOld"
  note asm = assemble_loop_result [OF assms(2) [unfolded assemble_def]]
  have Kd: "K_diag = concat (map (\<lambda>e. [\<lparr>iv_i = 2 * e, iv_val = 1\<rparr>,
      \<lparr>iv_i = 2 * e + 1, iv_val = 1\<rparr>]) [0..<?n])"
    using asm by simp
  have Kc: "\<forall>c\<in>set K_coefs. \<exists>e'<?n. \<not> ?dE ! e' \<and>
      (fst (ijv_ij c) = 2 * e' \<or> fst (ijv_ij c) = 2 * e' + 1)"
    using asm by fastforce
  have len_rhs: "length rhs = 2 * ?n"
    using asm by simp
  have pin_rhs: "\<forall>e<?n. ?dE ! e \<longrightarrow> pinned rhs e"
    using asm by simp
  have rows: "K_columns ! r = [r] \<and> K_values ! r = [1]"
    if e': "e' < ?n" "?dE ! e'" and r: "r = 2 * e' \<or> r = 2 * e' + 1" for e' r
  proof (rule prepare_system_unit_row [OF assms(3)])
    show "filter (\<lambda>d. iv_i d = r) K_diag = [\<lparr>iv_i = r, iv_val = 1\<rparr>]"
      unfolding Kd using e'(1) r by (rule diag_filter_unique)
    show "\<forall>c\<in>set K_coefs. fst (ijv_ij c) \<noteq> r"
    proof
      fix c assume "c \<in> set K_coefs"
      with Kc obtain e'' where "\<not> ?dE ! e''"
        and "fst (ijv_ij c) = 2 * e'' \<or> fst (ijv_ij c) = 2 * e'' + 1"
        by blast
      moreover from this(1) e'(2) have "e'' \<noteq> e'" by blast
      ultimately show "fst (ijv_ij c) \<noteq> r"
        using r by presburger
    qed
    show "r < length (replicate (2 * ?n) [])" "r < length (replicate (2 * ?n) [])"
      using e'(1) r by auto
    then show "replicate (2 * ?n) [] ! r = []" "replicate (2 * ?n) [] ! r = []"
      by simp_all
  qed
  have len_K: "length K_values = 2 * ?n"
    using prepare_system_length [OF assms(3)] by simp
  let ?P = "\<lambda>x. length x = 2 * ?n \<and> (\<forall>e<?n. ?dE ! e \<longrightarrow> pinned x e)"
  have step: "?P x'"
    if "heat_iteration solve ?dE K_columns K_values Mass ?n (emax * emax) (emin * emin) 10
          iter x = Some x'" and "?P x" for iter x x'
    using heat_iteration_pinned [OF assms(1) _ len_K that(1)] rows that(2) by blast
  from assms(4) have "heat_loop
      (heat_iteration solve ?dE K_columns K_values Mass ?n (emax * emax) (emin * emin) 10)
      [0..<10] rhs = (tr, r)"
    by (simp add: diffusion_def)
  then have "(\<forall>y\<in>set tr. ?P y) \<and> (\<forall>y. r = Some y \<longrightarrow> ?P y)"
  proof (rule heat_loop_invariant [where P = ?P, rotated])
    show "?P rhs" using len_rhs pin_rhs by simp
  qed (rule step)
  with assms(5,6) show ?thesis
    by (auto simp: pinned_def)
qed

lemma unit_diagonal_solver_exact: "exact_solver unit_diagonal_solver"
  by (auto simp: exact_solver_def unit_diagonal_solver_def row_sum_def list_all_iff
      split: if_splits)

lemma single_triangle_trace:
  "diffusion unit_diagonal_solver [True, True, True]
          [[0], [1], [2], [3], [4], [5]] [[1], [1], [1], [1], [1], [1]]
          [1, 1, 1, 1, 1, 1] 3 emin emax nb [1, 0, 1, 0, 1, 0] =
     ([[1, 0, 1, 0, 1, 0], [1, 0, 1, 0, 1, 0], [1, 0, 1, 0, 1, 0], [1, 0, 1, 0, 1, 0],
       [1, 0, 1, 0, 1, 0], [1, 0, 1, 0, 1, 0], [1, 0, 1, 0, 1, 0], [1, 0, 1, 0, 1, 0],
       [1, 0, 1, 0, 1, 0], [1, 0, 1, 0, 1, 0]], Some [1, 0, 1, 0, 1, 0])"
  by (simp add: diffusion_def heat_iteration_def heat_operator_def renormalize_def
        unit_diagonal_solver_def upt_rec Let_def)


theorem dirichlet_pinning_witness:
  "exact_solver unit_diagonal_solver \<and>
   mark_dirichlet single_triangle [(0, 1), (0, 2), (1, 2)] [[0], [2], [1]] ! 0 \<and>
   diffusion unit_diagonal_solver
       (mark_dirichlet single_triangle [(0, 1), (0, 2), (1, 2)] [[0], [2], [1]])
       [[0], [1], [2], [3], [4], [5]] [[1], [1], [1], [1], [1], [1]]
       [1, 1, 1, 1, 1, 1] (length [(0 :: nat, 1 :: nat), (0, 2), (1, 2)]) 1 1 10
       [1, 0, 1, 0, 1, 0] =
     ([[1, 0, 1, 0, 1, 0], [1, 0, 1, 0, 1, 0], [1, 0, 1, 0, 1, 0], [1, 0, 1, 0, 1, 0],
       [1, 0, 1, 0, 1, 0], [1, 0, 1, 0, 1, 0], [1, 0, 1, 0, 1, 0], [1, 0, 1, 0, 1, 0],
       [1, 0, 1, 0, 1, 0], [1, 0, 1, 0, 1, 0]], Some [1, 0, 1, 0, 1, 0]) \<and>
   [1, 0, 1, 0, 1, 0 :: real] ! (2 * 0) = 1 \<and> [1, 0, 1, 0, 1, 0 :: real] ! (2 * 0 + 1) = 0"
proof -
  let ?U = "[(0 :: nat, 1 :: nat), (0, 2), (1, 2)]"
  let ?T = "[[0 :: nat], [2], [1]]"
  let ?x = "[1, 0, 1, 0, 1, 0 :: real]"
  have len: "length ?U = 3"
    by simp
  have marks: "mark_dirichlet single_triangle ?U ?T ! 0"
    by (simp only: single_triangle_marks nth_Cons_0)
  have asm: "assemble 4294967295 single_triangle ?U [0, 2, 1] ?T
      (mark_dirichlet single_triangle ?U ?T) =
    Inr ([\<lparr>iv_i = 0, iv_val = 1\<rparr>, \<lparr>iv_i = 1, iv_val = 1\<rparr>, \<lparr>iv_i = 2, iv_val = 1\<rparr>,
         \<lparr>iv_i = 3, iv_val = 1\<rparr>, \<lparr>iv_i = 4, iv_val = 1\<rparr>, \<lparr>iv_i = 5, iv_val = 1\<rparr>],
        [], ?x, [1, 1, 1, 1, 1, 1])"
    by (simp only: single_triangle_marks single_triangle_assemble)
  have sys: "prepare_system [\<lparr>iv_i = 0, iv_val = 1\<rparr>, \<lparr>iv_i = 1, iv_val = 1\<rparr>,
         \<lparr>iv_i = 2, iv_val = 1\<rparr>, \<lparr>iv_i = 3, iv_val = 1\<rparr>, \<lparr>iv_i = 4, iv_val = 1\<rparr>,
         \<lparr>iv_i = 5, iv_val = 1\<rparr>] []
      (replicate (2 * length ?U) []) (replicate (2 * length ?U) []) =
    Some ([[0], [1], [2], [3], [4], [5]], [[1], [1], [1], [1], [1], [1]])"
    using single_triangle_system by (simp add: replicate_six)
  have run: "diffusion unit_diagonal_solver (mark_dirichlet single_triangle ?U ?T)
       [[0], [1], [2], [3], [4], [5]] [[1], [1], [1], [1], [1], [1]]
       [1, 1, 1, 1, 1, 1] (length ?U) 1 1 10 ?x =
     ([?x, ?x, ?x, ?x, ?x, ?x, ?x, ?x, ?x, ?x], Some ?x)"
    by (simp only: single_triangle_marks len single_triangle_trace)
  have e: "0 < length ?U"
    by simp
  from dirichlet_pinning [OF unit_diagonal_solver_exact asm sys run e marks]
  have "?x ! (2 * 0) = 1 \<and> ?x ! (2 * 0 + 1) = 0"
    by simp
  with unit_diagonal_solver_exact marks run show ?thesis
    by blast
qed

subsection \<open>Occurrence lists\<close>

lemma push_occurrence_fold:
  "length (foldl (push_occurrence old2IEdge) tbl ks) = length tbl \<and>
   (i < length tbl \<longrightarrow>
      foldl (push_occurrence old2IEdge) tbl ks ! i
        = tbl ! i @ filter (\<lambda>k. old2IEdge ! k = i) ks)"
proof (induction ks arbitrary: tbl)
  case Nil
  then show ?case by simp
next
  case (Cons k ks)
  let ?tbl1 = "push_occurrence old2IEdge tbl k"
  have "length ?tbl1 = length tbl"
    by (simp add: push_occurrence_def)
  moreover have "?tbl1 ! i = tbl ! i @ (if old2IEdge ! k = i then [k] else [])"
    if "i < length tbl"
    using that by (simp add: push_occurrence_def nth_list_update)
  ultimately show ?case
    using Cons.IH [of ?tbl1] by simp
qed

lemma build_uIEdgeToOld_flat:
  "foldl (\<lambda>tbl i. foldl (\<lambda>tbl lf. push_occurrence old2IEdge tbl (3 * i + lf)) tbl [0..<3])
     tbl [0..<T] = foldl (push_occurrence old2IEdge) tbl [0..<3 * T]"
proof (induction T)
  case 0
  then show ?case by simp
next
  case (Suc T)
  have "3 * Suc T = Suc (Suc (Suc (3 * T)))"
    by simp
  then have "[0..<3 * Suc T] = [0..<3 * T] @ [3 * T + 0, 3 * T + 1, 3 * T + 2]"
    by (simp only: upt_Suc_append le0 Suc_leD le_SucI) simp
  moreover have "[0..<3] = [0, 1, 2 :: nat]"
    by (simp add: upt_rec)
  ultimately show ?case
    using Suc by simp
qed

lemma build_uIEdgeToOld_nth:
  assumes "i < n"
  shows "build_uIEdgeToOld T old2IEdge n [] ! i = filter (\<lambda>k. old2IEdge ! k = i) [0..<3 * T]"
  using assms push_occurrence_fold [of old2IEdge "replicate n []" "[0..<3 * T]" i]
  by (simp add: build_uIEdgeToOld_def build_uIEdgeToOld_flat resize_rows_def)

subsection \<open>Adjacency slots\<close>

lemma set_slot_shape:
  "slots_for T tn \<Longrightarrow> slots_for T (set_slot tn e lf v)"
proof -
  have "length (tn[e := (tn ! e)[lf := v]] ! n) = 3"
    if "n < length tn" "\<forall>n<length tn. length (tn ! n) = 3" for n
    using that by (cases "e = n") auto
  then show "slots_for T tn \<Longrightarrow> slots_for T (set_slot tn e lf v)"
    by (auto simp: slots_for_def set_slot_def list_all_length)
qed

lemma slot_at_set_slot:
  assumes "slots_for T tn" and "k < 3 * T"
  shows "slot_at (set_slot tn (k div 3) (k mod 3) v) k' = (if k' = k then v else slot_at tn k')"
proof (cases "k' = k")
  case True
  with assms show ?thesis
    by (simp add: slot_at_def set_slot_def slots_for_def list_all_length)
next
  case False
  then have "k' div 3 \<noteq> k div 3 \<or> k' mod 3 \<noteq> k mod 3"
    by (metis div_mult_mod_eq)
  moreover from assms have "k div 3 < length tn"
    by (auto simp: slots_for_def)
  ultimately show ?thesis
    using False by (auto simp: slot_at_def set_slot_def nth_list_update)
qed

text \<open>What the treatment of one unique edge leaves untouched.\<close>

lemma nm_occurrence_frame:
  assumes "foldl (nm_occurrence occ) (tn, nm) ks = (tn', nm')"
    and "slots_for T tn" and "\<forall>k\<in>set ks. k < 3 * T"
  shows "slots_for T tn' \<and> (\<exists>ext. nm' = nm @ ext) \<and>
     (\<forall>k. k \<notin> set ks \<longrightarrow> slot_at tn' k = slot_at tn k)"
  using assms
proof (induction ks arbitrary: tn nm)
  case Nil
  then show ?case by simp
next
  case (Cons oj ks)
  let ?tn1 = "set_slot tn (oj div 3) (oj mod 3) (- (int (length nm) + 1))"
  let ?nm1 = "nm @ [filter (\<lambda>ok. ok \<noteq> oj) occ]"
  have "nm_occurrence occ (tn, nm) oj = (?tn1, ?nm1)"
    by (simp add: nm_occurrence_def Let_def)
  with Cons.prems(1) have run: "foldl (nm_occurrence occ) (?tn1, ?nm1) ks = (tn', nm')"
    by (simp only: foldl_Cons)
  have shape: "slots_for T ?tn1"
    using Cons.prems(2) by (rule set_slot_shape)
  from Cons.IH [OF run shape] Cons.prems(3)
  have "slots_for T tn'" "\<exists>ext. nm' = ?nm1 @ ext"
    "\<forall>k. k \<notin> set ks \<longrightarrow> slot_at tn' k = slot_at ?tn1 k"
    by simp_all
  moreover have "slot_at ?tn1 k = slot_at tn k" if "k \<noteq> oj" for k
    using that Cons.prems(2,3) by (simp add: slot_at_set_slot)
  ultimately show ?case by auto
qed

lemma adj_edge_frame:
  assumes "adj_edge no_id edge occ (tn, nm) = Some (tn', nm')"
    and "slots_for T tn" and "\<forall>k\<in>set occ. k < 3 * T"
  shows "slots_for T tn' \<and> (\<exists>ext. nm' = nm @ ext) \<and>
     (\<forall>k. k \<notin> set occ \<longrightarrow> slot_at tn' k = slot_at tn k)"
proof (cases "edge = (no_id, no_id)")
  case True
  with assms(1,2) show ?thesis
    by (simp add: adj_edge_def)
next
  case False
  with assms(1) have ns: "fst edge \<noteq> no_id" "snd edge \<noteq> no_id"
    by (auto simp: adj_edge_def split: if_splits)
  consider (none) "occ = []" | (boundary) a where "occ = [a]"
    | (regular) a b where "occ = [a, b]" | (non_manifold) "length occ > 2"
  proof (cases occ)
    case Nil
    then show ?thesis by (rule none)
  next
    case (Cons a r)
    note occ = this
    show ?thesis
    proof (cases r)
      case Nil
      with occ show ?thesis by (auto intro: boundary)
    next
      case (Cons b r')
      with occ show ?thesis
        by (cases r') (auto intro: regular non_manifold)
    qed
  qed
  then show ?thesis
  proof cases
    case none
    with assms(1,2) False ns show ?thesis
      by (simp add: adj_edge_def)
  next
    case boundary
    with assms(1) False ns
    have "tn' = set_slot tn (a div 3) (a mod 3) (int no_id)" "nm' = nm"
      by (simp_all add: adj_edge_def)
    with boundary assms(2,3) show ?thesis
      by (simp add: set_slot_shape slot_at_set_slot)
  next
    case regular
    from regular assms(1) False ns
    obtain v w where res:
      "tn' = set_slot (set_slot tn (a div 3) (a mod 3) v) (b div 3) (b mod 3) w" "nm' = nm"
      by (auto simp: adj_edge_def Let_def)
    let ?tn1 = "set_slot tn (a div 3) (a mod 3) v"
    have shape1: "slots_for T ?tn1"
      using assms(2) by (rule set_slot_shape)
    have "slot_at tn' k = slot_at tn k" if "k \<notin> set occ" for k
      using that regular res(1) shape1 assms(2,3) by (simp add: slot_at_set_slot)
    with res shape1 show ?thesis
      by (simp add: set_slot_shape)
  next
    case non_manifold
    with assms(1) False ns have "foldl (nm_occurrence occ) (tn, nm) occ = (tn', nm')"
      by (simp add: adj_edge_def)
    from nm_occurrence_frame [OF this assms(2,3)] show ?thesis .
  qed
qed

lemma adj_loop_frame:
  assumes "adj_loop no_id uIEdges tbl es (tn, nm) = Some (tn', nm')"
    and "slots_for T tn" and "\<forall>e\<in>set es. \<forall>k\<in>set (tbl ! e). k < 3 * T"
  shows "slots_for T tn' \<and> (\<exists>ext. nm' = nm @ ext) \<and>
     (\<forall>k. (\<forall>e\<in>set es. k \<notin> set (tbl ! e)) \<longrightarrow> slot_at tn' k = slot_at tn k)"
  using assms
proof (induction es arbitrary: tn nm)
  case Nil
  then show ?case by simp
next
  case (Cons e es)
  from Cons.prems(1) obtain tn1 nm1 where
    one: "adj_edge no_id (uIEdges ! e) (tbl ! e) (tn, nm) = Some (tn1, nm1)"
    and rest: "adj_loop no_id uIEdges tbl es (tn1, nm1) = Some (tn', nm')"
    by (auto split: option.splits)
  from adj_edge_frame [OF one Cons.prems(2)] Cons.prems(3)
  have f1: "slots_for T tn1" "\<exists>ext. nm1 = nm @ ext"
    "\<forall>k. k \<notin> set (tbl ! e) \<longrightarrow> slot_at tn1 k = slot_at tn k"
    by simp_all
  from Cons.IH [OF rest f1(1)] Cons.prems(3)
  have f2: "slots_for T tn'" "\<exists>ext. nm' = nm1 @ ext"
    "\<forall>k. (\<forall>e\<in>set es. k \<notin> set (tbl ! e)) \<longrightarrow> slot_at tn' k = slot_at tn1 k"
    by simp_all
  from f1(2) f2(2) have "\<exists>ext. nm' = nm @ ext" by auto
  with f1 f2 show ?case by simp
qed

lemma adj_loop_append:
  "adj_loop no_id uIEdges tbl (es @ es') s =
     (case adj_loop no_id uIEdges tbl es s of
        None \<Rightarrow> None
      | Some s' \<Rightarrow> adj_loop no_id uIEdges tbl es' s')"
  by (induction es arbitrary: s) (auto split: option.splits)

text \<open>
  Claim C7, as the code has it. When \<^const>\<open>compute_triangle_adjacencies\<close> succeeds,
  a unique edge with exactly three occurrences \<open>a\<close>, \<open>b\<close>, \<open>c\<close> (other than the pair
  of two sentinels, which is skipped) owns three consecutive entries of the
  non-manifold neighbor list, one per occurrence, each holding the two other
  occurrences; the slot of each occurrence holds the negative code \<open>-(p + 1)\<close> of the
  position \<open>p\<close> of its own entry, so the three slots differ.
\<close>

theorem non_manifold_edge_entries:
  assumes "compute_triangle_adjacencies no_id tris [] =
      Some (tn, nm, uIEdges, old2IEdge, uIEdgeToOld)"
    and "i < length uIEdges"
    and "uIEdges ! i \<noteq> (no_id, no_id)"
    and "uIEdgeToOld ! i = [a, b, c]"
  shows "\<exists>pos. pos + 3 \<le> length nm \<and>
     nm ! pos = [b, c] \<and> nm ! (pos + 1) = [a, c] \<and> nm ! (pos + 2) = [a, b] \<and>
     tn ! (a div 3) ! (a mod 3) = - (int pos + 1) \<and>
     tn ! (b div 3) ! (b mod 3) = - (int (pos + 1) + 1) \<and>
     tn ! (c div 3) ! (c mod 3) = - (int (pos + 2) + 1)"
proof -
  let ?T = "length tris"
  let ?n = "length uIEdges"
  let ?tn0 = "replicate ?T [int no_id, int no_id, int no_id]"
  from assms(1) have tbl: "uIEdgeToOld = build_uIEdgeToOld ?T old2IEdge ?n []"
    and loop: "adj_loop no_id uIEdges uIEdgeToOld [0..<?n] (?tn0, []) = Some (tn, nm)"
    by (auto simp: compute_triangle_adjacencies_def Let_def split: prod.splits option.splits)
  have occ: "uIEdgeToOld ! e = filter (\<lambda>k. old2IEdge ! k = e) [0..<3 * ?T]" if "e < ?n" for e
    unfolding tbl using that by (rule build_uIEdgeToOld_nth)
  have bound: "\<forall>e\<in>set es. \<forall>k\<in>set (uIEdgeToOld ! e). k < 3 * ?T" if "set es \<subseteq> {0..<?n}" for es
    using that occ by fastforce
  from occ [OF assms(2)] assms(4)
  have abc: "[a, b, c] = filter (\<lambda>k. old2IEdge ! k = i) [0..<3 * ?T]"
    by simp
  have dist: "distinct [a, b, c]"
    unfolding abc by simp
  have mem: "k < 3 * ?T \<and> old2IEdge ! k = i" if "k \<in> set [a, b, c]" for k
    using that unfolding abc by simp
  have split: "[0..<?n] = [0..<i] @ i # [Suc i..<?n]"
    using assms(2) by (metis le0 less_imp_le_nat upt_add_eq_append upt_conv_Cons
        add_0 le_add_diff_inverse)
  from loop obtain tn1 nm1 tn2 nm2 where
    pre: "adj_loop no_id uIEdges uIEdgeToOld [0..<i] (?tn0, []) = Some (tn1, nm1)"
    and one: "adj_edge no_id (uIEdges ! i) (uIEdgeToOld ! i) (tn1, nm1) = Some (tn2, nm2)"
    and post: "adj_loop no_id uIEdges uIEdgeToOld [Suc i..<?n] (tn2, nm2) = Some (tn, nm)"
    unfolding split adj_loop_append by (auto split: option.splits)
  have shape0: "slots_for ?T ?tn0"
    by (simp add: slots_for_def list_all_length)
  have shape1: "slots_for ?T tn1"
    using adj_loop_frame [OF pre shape0 bound] assms(2) by auto
  let ?p = "length nm1"
  let ?ta = "set_slot tn1 (a div 3) (a mod 3) (- (int ?p + 1))"
  let ?tb = "set_slot ?ta (b div 3) (b mod 3) (- (int (?p + 1) + 1))"
  let ?tc = "set_slot ?tb (c div 3) (c mod 3) (- (int (?p + 2) + 1))"
  from one assms(3) have "fst (uIEdges ! i) \<noteq> no_id" "snd (uIEdges ! i) \<noteq> no_id"
    by (auto simp: adj_edge_def split: if_splits)
  with one assms(3,4) dist have tn2: "tn2 = ?tc" and nm2: "nm2 = nm1 @ [[b, c], [a, c], [a, b]]"
    by (auto simp: adj_edge_def nm_occurrence_def Let_def)
  have shape_a: "slots_for ?T ?ta" and shape_b: "slots_for ?T ?tb" and shape2: "slots_for ?T tn2"
    unfolding tn2 using shape1 by (simp_all add: set_slot_shape)
  have lt: "a < 3 * ?T" "b < 3 * ?T" "c < 3 * ?T"
    using mem by simp_all
  have s2: "slot_at tn2 a = - (int ?p + 1)" "slot_at tn2 b = - (int (?p + 1) + 1)"
    "slot_at tn2 c = - (int (?p + 2) + 1)"
    unfolding tn2 using dist lt shape1 shape_a shape_b
    by (simp_all add: slot_at_set_slot)
  have later: "\<forall>e\<in>set [Suc i..<?n]. k \<notin> set (uIEdgeToOld ! e)" if "k \<in> set [a, b, c]" for k
    using mem [OF that] occ by auto
  have sub: "set [Suc i..<?n] \<subseteq> {0..<?n}"
    by auto
  from adj_loop_frame [OF post shape2 bound [OF sub]]
  obtain ext where ext: "nm = nm2 @ ext"
    and keep: "\<forall>k. (\<forall>e\<in>set [Suc i..<?n]. k \<notin> set (uIEdgeToOld ! e)) \<longrightarrow>
        slot_at tn k = slot_at tn2 k"
    by blast
  from keep later have "slot_at tn a = slot_at tn2 a" "slot_at tn b = slot_at tn2 b"
    "slot_at tn c = slot_at tn2 c"
    by simp_all
  with s2 have slots: "tn ! (a div 3) ! (a mod 3) = - (int ?p + 1)"
    "tn ! (b div 3) ! (b mod 3) = - (int (?p + 1) + 1)"
    "tn ! (c div 3) ! (c mod 3) = - (int (?p + 2) + 1)"
    by (simp_all add: slot_at_def)
  have "?p + 3 \<le> length nm" "nm ! ?p = [b, c]" "nm ! (?p + 1) = [a, c]" "nm ! (?p + 2) = [a, b]"
    unfolding ext nm2 by (simp_all add: nth_append)
  with slots show ?thesis by blast
qed

lemma three_fan_adjacencies:
  "compute_triangle_adjacencies 4294967295 [(0, 1, 2), (0, 1, 3), (0, 1, 4)] [] =
     Some ([[- 1, 4294967295, 4294967295], [- 2, 4294967295, 4294967295],
            [- 3, 4294967295, 4294967295]],
           [[3, 6], [0, 6], [0, 3]],
           [(0, 1), (0, 2), (0, 3), (0, 4), (1, 2), (1, 3), (1, 4)],
           [0, 4, 1, 0, 5, 2, 0, 6, 3],
           [[0, 3, 6], [2], [5], [8], [1], [4], [7]])"
  by (simp add: compute_triangle_adjacencies_def sort_unique_with_perm_def collect_faces_def
      sort_face_def build_uIEdgeToOld_def resize_rows_def push_occurrence_def adj_edge_def
      nm_occurrence_def set_slot_def upt_rec)

text \<open>
  Claim C7 as stated fails: for three triangles around the edge \<open>(0, 1)\<close> the
  non-manifold neighbor list has three entries, each of size two; none has size three.
\<close>

theorem three_fan_entries_have_size_two:
  "compute_triangle_adjacencies 4294967295 [(0, 1, 2), (0, 1, 3), (0, 1, 4)] [] =
     Some ([[- 1, 4294967295, 4294967295], [- 2, 4294967295, 4294967295],
            [- 3, 4294967295, 4294967295]],
           [[3, 6], [0, 6], [0, 3]],
           [(0, 1), (0, 2), (0, 3), (0, 4), (1, 2), (1, 3), (1, 4)],
           [0, 4, 1, 0, 5, 2, 0, 6, 3],
           [[0, 3, 6], [2], [5], [8], [1], [4], [7]]) \<and>
   map length [[3, 6], [0, 6], [0, 3 :: nat]] = [2, 2, 2]"
  using three_fan_adjacencies by simp

theorem non_manifold_edge_entries_witness:
  "\<exists>pos. pos + 3 \<le> length [[3, 6], [0, 6], [0, 3 :: nat]] \<and>
     [[3, 6], [0, 6], [0, 3 :: nat]] ! pos = [3, 6] \<and>
     [[3, 6], [0, 6], [0, 3 :: nat]] ! (pos + 1) = [0, 6] \<and>
     [[3, 6], [0, 6], [0, 3 :: nat]] ! (pos + 2) = [0, 3] \<and>
     [[- 1, 4294967295, 4294967295], [- 2, 4294967295, 4294967295],
      [- 3, 4294967295, 4294967295 :: int]] ! (0 div 3) ! (0 mod 3) = - (int pos + 1) \<and>
     [[- 1, 4294967295, 4294967295], [- 2, 4294967295, 4294967295],
      [- 3, 4294967295, 4294967295 :: int]] ! (3 div 3) ! (3 mod 3) = - (int (pos + 1) + 1) \<and>
     [[- 1, 4294967295, 4294967295], [- 2, 4294967295, 4294967295],
      [- 3, 4294967295, 4294967295 :: int]] ! (6 div 3) ! (6 mod 3) = - (int (pos + 2) + 1)"
proof (rule non_manifold_edge_entries [OF three_fan_adjacencies])
  show "0 < length [(0 :: nat, 1 :: nat), (0, 2), (0, 3), (0, 4), (1, 2), (1, 3), (1, 4)]"
    by simp
  show "[(0, 1), (0, 2), (0, 3), (0, 4), (1, 2), (1, 3), (1, 4)] ! 0
      \<noteq> (4294967295 :: nat, 4294967295 :: nat)"
    by simp
  show "[[0, 3, 6], [2], [5], [8], [1], [4], [7 :: nat]] ! 0 = [0, 3, 6]"
    by simp
qed

subsection \<open>The computation after the assembly\<close>




lemma cross_field_pipeline:
  assumes "compute_triangle_adjacencies no_id (triangles M) [] =
      Some (tn, nm, uIEdges, old2IEdge, uIEdgeToOld)"
    and "uIEdges \<noteq> []"
    and "assemble no_id M uIEdges old2IEdge uIEdgeToOld (mark_dirichlet M uIEdges uIEdgeToOld)
      = Inr (K_diag, K_coefs, rhs, Mass)"
    and "edge_sizes M uIEdges = (eavg, emin, emax)"
    and "prepare_system K_diag K_coefs (replicate (2 * length uIEdges) [])
      (replicate (2 * length uIEdges) []) = Some (K_columns, K_values)"
    and "diffusion solve (mark_dirichlet M uIEdges uIEdgeToOld) K_columns K_values Mass
      (length uIEdges) emin emax nbIter rhs = (tr, r)"
  shows "compute_cross_field_with_heat solve no_id M nbIter m =
     (case r of
        None \<Rightarrow> Inl (SolverFailed (length tr))
      | Some x \<Rightarrow> Inr (map_option (fill_edge_to_angle uIEdges x) m))"
  using assms by (simp add: compute_cross_field_with_heat_def Let_def split: option.splits)

lemma single_triangle_sizes:
  "edge_sizes single_triangle [(0, 1), (0, 2), (1, 2)] = ((2 + sqrt 2) / 3, 1, sqrt 2)"
  by (simp add: edge_sizes_def single_triangle_def vlength_def DBL_MAX_def
      upt_rec Let_def)


lemma single_triangle_setup:
  "[(0 :: nat, 1 :: nat), (0, 2), (1, 2)] \<noteq> []"
  "assemble 4294967295 single_triangle [(0, 1), (0, 2), (1, 2)] [0, 2, 1] [[0], [2], [1]]
     (mark_dirichlet single_triangle [(0, 1), (0, 2), (1, 2)] [[0], [2], [1]]) =
   Inr ([\<lparr>iv_i = 0, iv_val = 1\<rparr>, \<lparr>iv_i = 1, iv_val = 1\<rparr>, \<lparr>iv_i = 2, iv_val = 1\<rparr>,
         \<lparr>iv_i = 3, iv_val = 1\<rparr>, \<lparr>iv_i = 4, iv_val = 1\<rparr>, \<lparr>iv_i = 5, iv_val = 1\<rparr>],
        [], [1, 0, 1, 0, 1, 0], [1, 1, 1, 1, 1, 1])"
  "prepare_system [\<lparr>iv_i = 0, iv_val = 1\<rparr>, \<lparr>iv_i = 1, iv_val = 1\<rparr>, \<lparr>iv_i = 2, iv_val = 1\<rparr>,
         \<lparr>iv_i = 3, iv_val = 1\<rparr>, \<lparr>iv_i = 4, iv_val = 1\<rparr>, \<lparr>iv_i = 5, iv_val = 1\<rparr>] []
      (replicate (2 * length [(0 :: nat, 1 :: nat), (0, 2), (1, 2)]) [])
      (replicate (2 * length [(0 :: nat, 1 :: nat), (0, 2), (1, 2)]) []) =
   Some ([[0], [1], [2], [3], [4], [5]], [[1], [1], [1], [1], [1], [1]])"
proof -
  show "[(0 :: nat, 1 :: nat), (0, 2), (1, 2)] \<noteq> []"
    by simp
  show "assemble 4294967295 single_triangle [(0, 1), (0, 2), (1, 2)] [0, 2, 1] [[0], [2], [1]]
     (mark_dirichlet single_triangle [(0, 1), (0, 2), (1, 2)] [[0], [2], [1]]) =
   Inr ([\<lparr>iv_i = 0, iv_val = 1\<rparr>, \<lparr>iv_i = 1, iv_val = 1\<rparr>, \<lparr>iv_i = 2, iv_val = 1\<rparr>,
         \<lparr>iv_i = 3, iv_val = 1\<rparr>, \<lparr>iv_i = 4, iv_val = 1\<rparr>, \<lparr>iv_i = 5, iv_val = 1\<rparr>],
        [], [1, 0, 1, 0, 1, 0], [1, 1, 1, 1, 1, 1])"
    by (simp only: single_triangle_marks single_triangle_assemble)
  have rep: "replicate (2 * length [(0 :: nat, 1 :: nat), (0, 2), (1, 2)]) x
      = [x, x, x, x, x, x]" for x :: "'a list"
    by (simp add: replicate_six)
  show "prepare_system [\<lparr>iv_i = 0, iv_val = 1\<rparr>, \<lparr>iv_i = 1, iv_val = 1\<rparr>,
         \<lparr>iv_i = 2, iv_val = 1\<rparr>, \<lparr>iv_i = 3, iv_val = 1\<rparr>, \<lparr>iv_i = 4, iv_val = 1\<rparr>,
         \<lparr>iv_i = 5, iv_val = 1\<rparr>] []
      (replicate (2 * length [(0 :: nat, 1 :: nat), (0, 2), (1, 2)]) [])
      (replicate (2 * length [(0 :: nat, 1 :: nat), (0, 2), (1, 2)]) []) =
   Some ([[0], [1], [2], [3], [4], [5]], [[1], [1], [1], [1], [1], [1]])"
    by (simp only: rep single_triangle_system)
qed



lemma single_triangle_constant_run:
  "diffusion (constant_solver [0, 1, 0, 0, 1, 0])
     (mark_dirichlet single_triangle [(0, 1), (0, 2), (1, 2)] [[0], [2], [1]])
     [[0], [1], [2], [3], [4], [5]] [[1], [1], [1], [1], [1], [1]] [1, 1, 1, 1, 1, 1]
     (length [(0 :: nat, 1 :: nat), (0, 2), (1, 2)]) emin emax nb [1, 0, 1, 0, 1, 0] =
   ([[0, 1, 0, 0, 1, 0], [0, 1, 0, 0, 1, 0], [0, 1, 0, 0, 1, 0], [0, 1, 0, 0, 1, 0],
     [0, 1, 0, 0, 1, 0], [0, 1, 0, 0, 1, 0], [0, 1, 0, 0, 1, 0], [0, 1, 0, 0, 1, 0],
     [0, 1, 0, 0, 1, 0], [0, 1, 0, 0, 1, 0]], Some [0, 1, 0, 0, 1, 0])"
  by (simp add: single_triangle_marks diffusion_def heat_iteration_def renormalize_def
      constant_solver_def upt_rec Let_def)




text \<open>
  Claim C10. When the computation succeeds and the caller has supplied a map, the map
  at the return is the caller's map in which the loop of lines 604--611 has stored,
  under the vertex pair of every unique edge of the mesh, the angle of the edge in
  the final vector of the diffusion, which is \<open>0\<close> for an edge whose pair of unknowns
  has magnitude at most \<open>EPS\<close>. The unique edges are pairwise distinct, so every one
  of them has its own entry, and no other key of the caller's map is touched.
\<close>

theorem edge_to_angle_entries:
  assumes "compute_triangle_adjacencies no_id (triangles M) [] =
      Some (tn, nm, uIEdges, old2IEdge, uIEdgeToOld)"
    and "uIEdges \<noteq> []"
    and "assemble no_id M uIEdges old2IEdge uIEdgeToOld (mark_dirichlet M uIEdges uIEdgeToOld)
      = Inr (K_diag, K_coefs, rhs, Mass)"
    and "edge_sizes M uIEdges = (eavg, emin, emax)"
    and "prepare_system K_diag K_coefs (replicate (2 * length uIEdges) [])
      (replicate (2 * length uIEdges) []) = Some (K_columns, K_values)"
    and "diffusion solve (mark_dirichlet M uIEdges uIEdgeToOld) K_columns K_values Mass
      (length uIEdges) emin emax nbIter rhs = (tr, Some x)"
  shows "\<exists>m'. compute_cross_field_with_heat solve no_id M nbIter (Some m) = Inr (Some m') \<and>
    distinct uIEdges \<and>
    dom m' = dom m \<union> set uIEdges \<and>
    (\<forall>edge. edge \<notin> set uIEdges \<longrightarrow> m' edge = m edge) \<and>
    (\<forall>e<length uIEdges.
       m' (uIEdges ! e) = Some (edge_angle x e) \<and>
       (sqrt (x ! (2 * e) * x ! (2 * e) + x ! (2 * e + 1) * x ! (2 * e + 1)) \<le> EPS \<longrightarrow>
          m' (uIEdges ! e) = Some 0))"
proof -
  let ?m' = "fill_edge_to_angle uIEdges x m"
  from cross_field_pipeline [OF assms, of "Some m"]
  have res: "compute_cross_field_with_heat solve no_id M nbIter (Some m) = Inr (Some ?m')"
    by simp
  from assms(1) have d: "distinct uIEdges"
    by (rule unique_edges_distinct)
  have zero: "edge_angle x e = 0"
    if "sqrt (x ! (2 * e) * x ! (2 * e) + x ! (2 * e + 1) * x ! (2 * e + 1)) \<le> EPS" for e
    using that by (simp add: edge_angle_def Let_def)
  have other: "?m' edge = m edge" if "edge \<notin> set uIEdges" for edge
  proof -
    have "(\<lambda>e. uIEdges ! e) ` set [0..<length uIEdges] = set uIEdges"
      using set_conv_nth [of uIEdges] by auto
    with that show ?thesis
      by (simp add: fill_edge_to_angle_def foldl_upd_lookup)
  qed
  have "\<forall>e<length uIEdges.
       ?m' (uIEdges ! e) = Some (edge_angle x e) \<and>
       (sqrt (x ! (2 * e) * x ! (2 * e) + x ! (2 * e + 1) * x ! (2 * e + 1)) \<le> EPS \<longrightarrow>
          ?m' (uIEdges ! e) = Some 0)"
    using d zero by (simp add: fill_edge_to_angle_lookup)
  with res d other fill_edge_to_angle_dom [of uIEdges x m] show ?thesis
    by blast
qed


theorem edge_to_angle_entries_witness:
  "\<exists>m'. compute_cross_field_with_heat (constant_solver [0, 1, 0, 0, 1, 0]) 4294967295
       single_triangle 10 (Some Map.empty) = Inr (Some m') \<and>
     m' (0, 1) = Some (pi / 8) \<and> m' (0, 2) = Some 0 \<and> m' (1, 2) = Some 0 \<and>
     dom m' = {(0, 1), (0, 2), (1, 2)}"
proof -
  let ?E = "[(0 :: nat, 1 :: nat), (0, 2), (1, 2)]"
  let ?x = "[0, 1, 0, 0, 1, 0 :: real]"
  from edge_to_angle_entries [OF single_triangle_adjacencies single_triangle_setup(1,2)
      single_triangle_sizes single_triangle_setup(3)
      single_triangle_constant_run [of 1 "sqrt 2" 10], of Map.empty]
  obtain m' where
    res: "compute_cross_field_with_heat (constant_solver ?x) 4294967295
       single_triangle 10 (Some Map.empty) = Inr (Some m')"
    and dm: "dom m' = dom (Map.empty :: id2 \<rightharpoonup> real) \<union> set ?E"
    and entries: "\<forall>e<length ?E.
       m' (?E ! e) = Some (edge_angle ?x e) \<and>
       (sqrt (?x ! (2 * e) * ?x ! (2 * e) + ?x ! (2 * e + 1) * ?x ! (2 * e + 1)) \<le> EPS \<longrightarrow>
          m' (?E ! e) = Some 0)"
    by blast
  have e0: "(0 :: nat) < length ?E" and e1: "(1 :: nat) < length ?E"
    and e2: "(2 :: nat) < length ?E"
    by simp_all
  have small: "sqrt (?x ! (2 * 1) * ?x ! (2 * 1) + ?x ! (2 * 1 + 1) * ?x ! (2 * 1 + 1)) \<le> EPS"
    by (simp add: EPS_def)
  from entries e0 have "m' (?E ! 0) = Some (edge_angle ?x 0)"
    by blast
  then have a0: "m' (0, 1) = Some (pi / 8)"
    by (simp add: edge_angle_def atan2_def EPS_def)
  from entries e1 small have "m' (?E ! 1) = Some 0"
    by blast
  then have a1: "m' (0, 2) = Some 0"
    by simp
  from entries e2 have "m' (?E ! 2) = Some (edge_angle ?x 2)"
    by blast
  then have a2: "m' (1, 2) = Some 0"
    by (simp add: edge_angle_def atan2_def EPS_def)
  from dm have d: "dom m' = {(0, 1), (0, 2), (1, 2)}"
    by simp
  from res a0 a1 a2 d show ?thesis
    by blast
qed

end
